theory Spec2Isabelle
  imports Complex_Main
begin

section \<open>Errors, arrays, slices and dictionaries\<close>

text \<open>
  The Python exceptions that the functions of \<^verbatim>\<open>utils.py\<close> and the shape
  arithmetic of \<^verbatim>\<open>model.py\<close> can raise. A \<open>ValueError\<close> carries the reason it
  was raised for, a \<open>KeyError\<close> the key that was looked up.
\<close>

type_synonym key = "int \<times> int"

datatype value_error =
    RangeStepZero
  | BroadcastMismatch
  | EmptyTrainSet
  | ShapeMismatch

datatype error =
    ValueError value_error
  | IndexError
  | StopIteration
  | KeyError key

text \<open>
  A three-axis numpy array (height, width, bands): its shape, and its elements as rows
  of pixels of band values. numpy keeps the shape apart from the data, so an array with
  no rows still has a width and a band count.
\<close>

record 'a ndarray3 =
  dim0 :: nat
  dim1 :: nat
  dim2 :: nat
  elems :: "'a list list list"

definition valid3 :: "'a ndarray3 \<Rightarrow> bool" where
  "valid3 a \<longleftrightarrow>
     length (elems a) = dim0 a \<and>
     (\<forall>r \<in> set (elems a). length r = dim1 a \<and> (\<forall>p \<in> set r. length p = dim2 a))"

text \<open>A two-axis numpy array (height, width).\<close>

record 'a ndarray2 =
  nrows :: nat
  ncols :: nat
  cells :: "'a list list"

definition valid2 :: "'a ndarray2 \<Rightarrow> bool" where
  "valid2 a \<longleftrightarrow>
     length (cells a) = nrows a \<and> (\<forall>r \<in> set (cells a). length r = ncols a)"

text \<open>
  Python's reading of one bound \<open>k\<close> of a slice \<open>[a:b]\<close> over an axis of length \<open>n\<close>:
  a negative bound counts from the end, and every bound is clipped to \<open>0..n\<close>.
  \<open>slice_bounds\<close> gives the first index of the slice and its length (0 when the
  upper bound is not above the lower one).
\<close>

definition slice_index :: "nat \<Rightarrow> int \<Rightarrow> nat" where
  "slice_index n k = (if k < 0 then nat (max (int n + k) 0) else min (nat k) n)"

definition slice_bounds :: "nat \<Rightarrow> int \<Rightarrow> int \<Rightarrow> nat \<times> nat" where
  "slice_bounds n a b =
     (let s = slice_index n a; e = slice_index n b
      in (s, if e < s then 0 else e - s))"

text \<open>\<^verbatim>\<open>img[a:b, c:d]\<close> on a three-axis array: all bands of the selected pixels.\<close>

definition getslice2 :: "'a ndarray3 \<Rightarrow> int \<Rightarrow> int \<Rightarrow> int \<Rightarrow> int \<Rightarrow> 'a ndarray3" where
  "getslice2 img a b c d =
     (let (rs, rn) = slice_bounds (dim0 img) a b;
          (cs, cn) = slice_bounds (dim1 img) c d
      in \<lparr>dim0 = rn, dim1 = cn, dim2 = dim2 img,
          elems = map (\<lambda>row. take cn (drop cs row)) (take rn (drop rs (elems img)))\<rparr>)"

text \<open>
  \<^verbatim>\<open>range(start, stop, step)\<close>: the loop that produces its elements, and the
  \<open>ValueError\<close> Python raises for a zero step.
\<close>

function py_range :: "int \<Rightarrow> int \<Rightarrow> int \<Rightarrow> int list" where
  "py_range i stop step =
     (if (0 < step \<and> i < stop) \<or> (step < 0 \<and> stop < i)
      then i # py_range (i + step) stop step else [])"
  by pat_completeness auto
termination
  by (relation "measure (\<lambda>(i, stop, step). nat (if 0 < step then stop - i else i - stop))") auto

declare py_range.simps [simp del]

definition range3 :: "int \<Rightarrow> int \<Rightarrow> int \<Rightarrow> error + int list" where
  "range3 start stop step =
     (if step = 0 then Inl (ValueError RangeStepZero) else Inr (py_range start stop step))"

text \<open>
  A Python dict keeps its entries in insertion order: an association list in which a
  key occurs once. \<^verbatim>\<open>d[k] = v\<close> replaces the value of a key that is present and
  appends a new entry otherwise; \<^verbatim>\<open>d[k]\<close> raises \<open>KeyError\<close> for a missing key.
\<close>

type_synonym ('k, 'v) dict = "('k \<times> 'v) list"

fun dict_set :: "('k, 'v) dict \<Rightarrow> 'k \<Rightarrow> 'v \<Rightarrow> ('k, 'v) dict" where
  "dict_set [] k v = [(k, v)]"
| "dict_set ((k', v') # d) k v =
     (if k' = k then (k', v) # d else (k', v') # dict_set d k v)"

definition dict_keys :: "('k, 'v) dict \<Rightarrow> 'k list" where
  "dict_keys d = map fst d"

definition dict_get :: "(key, 'v) dict \<Rightarrow> key \<Rightarrow> error + 'v" where
  "dict_get d k = (case map_of d k of None \<Rightarrow> Inl (KeyError k) | Some v \<Rightarrow> Inr v)"

section \<open>The Tiler: \<^verbatim>\<open>cut_into_tiles\<close>\<close>

text \<open>
  The inner loop over the column offsets \<open>j\<close> of one row offset \<open>i\<close>, and the outer
  loop over the row offsets. A slice is stored only when both of its extents equal
  \<open>tile_size\<close>.
\<close>

fun cut_cols ::
  "'a ndarray3 \<Rightarrow> int \<Rightarrow> int \<Rightarrow> int list \<Rightarrow> (key, 'a ndarray3) dict \<Rightarrow> (key, 'a ndarray3) dict"
where
  "cut_cols img tile_size i [] tiles = tiles"
| "cut_cols img tile_size i (j # js) tiles =
     (let tile = getslice2 img i (i + tile_size) j (j + tile_size)
      in cut_cols img tile_size i js
           (if int (dim0 tile) = tile_size \<and> int (dim1 tile) = tile_size
            then dict_set tiles (i, j) tile else tiles))"

fun cut_rows ::
  "'a ndarray3 \<Rightarrow> int \<Rightarrow> int list \<Rightarrow> int list \<Rightarrow> (key, 'a ndarray3) dict \<Rightarrow> (key, 'a ndarray3) dict"
where
  "cut_rows img tile_size [] js tiles = tiles"
| "cut_rows img tile_size (i # rws) js tiles =
     cut_rows img tile_size rws js (cut_cols img tile_size i js tiles)"

definition cut_into_tiles :: "'a ndarray3 \<Rightarrow> int \<Rightarrow> error + (key, 'a ndarray3) dict" where
  "cut_into_tiles img tile_size =
     (case range3 0 (int (dim0 img)) tile_size of
        Inl e \<Rightarrow> Inl e
      | Inr rws \<Rightarrow>
          (case range3 0 (int (dim1 img)) tile_size of
             Inl e \<Rightarrow> Inl e
           | Inr cls \<Rightarrow> Inr (cut_rows img tile_size rws cls [])))"

text \<open>
  The test of the inner loop, as a predicate on the offsets: the slice at \<open>(i, j)\<close>
  has \<open>tile_size\<close> rows and \<open>tile_size\<close> columns.
\<close>

definition keep :: "'a ndarray3 \<Rightarrow> int \<Rightarrow> int \<Rightarrow> int \<Rightarrow> bool" where
  "keep img t i j \<longleftrightarrow>
     int (dim0 (getslice2 img i (i + t) j (j + t))) = t \<and>
     int (dim1 (getslice2 img i (i + t) j (j + t))) = t"

text \<open>A raster of 3 rows, 5 columns and one band, used to run the functions.\<close>

definition raster_3x5 :: "int ndarray3" where
  "raster_3x5 =
     \<lparr>dim0 = 3, dim1 = 5, dim2 = 1,
      elems = [[[10], [11], [12], [13], [14]],
               [[20], [21], [22], [23], [24]],
               [[30], [31], [32], [33], [34]]]\<rparr>"

section \<open>The Stitcher: \<^verbatim>\<open>jahit_tiles\<close>\<close>

text \<open>
  \<^verbatim>\<open>np.zeros(shape)\<close> for a shape of at most two axes. The array it returns
  has the element type float64, written \<open>'f\<close> below, whatever the element type of the
  tiles is. Only a shape of two axes gives an array that the two-axis index of the loop
  accepts; \<open>None\<close> stands for the arrays of fewer axes. Shapes are tuples of
  non-negative integers.
\<close>

definition np_zeros :: "nat list \<Rightarrow> 'f::zero ndarray2 option" where
  "np_zeros shp =
     (case shp of
        [h, w] \<Rightarrow> Some \<lparr>nrows = h, ncols = w, cells = replicate h (replicate w 0)\<rparr>
      | _ \<Rightarrow> None)"

text \<open>
  \<^verbatim>\<open>tile[..., 0]\<close>: the first band of every pixel; \<open>IndexError\<close> for an array
  with no band.
\<close>

definition channel0 :: "'a ndarray3 \<Rightarrow> error + 'a ndarray2" where
  "channel0 tile =
     (if dim2 tile = 0 then Inl IndexError
      else Inr \<lparr>nrows = dim0 tile, ncols = dim1 tile,
                cells = map (map (\<lambda>p. p ! 0)) (elems tile)\<rparr>)"

text \<open>
  \<^verbatim>\<open>dst[a:b, c:d] = src\<close>: numpy broadcasts \<open>src\<close> to the shape of the selected
  region, which each axis of \<open>src\<close> allows when it has the region's length or length 1,
  and raises \<open>ValueError\<close> otherwise. The cells of the region take the values of
  \<open>src\<close> converted to the element type of \<open>dst\<close>, every other cell keeps its value.
  The conversion, \<open>astype\<close>, is numpy's cast from the element type of the tiles to
  float64; it is a parameter, since the tiles may have any numeric element type. It is
  the identity for float64 tiles and exact for float32 tiles and for integers of
  magnitude below \<open>2^53\<close>; larger integers are rounded, and a complex value loses its
  imaginary part.
\<close>

definition setslice2 ::
  "('a \<Rightarrow> 'f) \<Rightarrow> 'f ndarray2 \<Rightarrow> int \<Rightarrow> int \<Rightarrow> int \<Rightarrow> int \<Rightarrow> 'a ndarray2
     \<Rightarrow> error + 'f ndarray2"
where
  "setslice2 astype dst a b c d src =
     (let (rs, rn) = slice_bounds (nrows dst) a b;
          (cs, cn) = slice_bounds (ncols dst) c d
      in if (nrows src = rn \<or> nrows src = 1) \<and> (ncols src = cn \<or> ncols src = 1)
         then Inr (dst\<lparr>cells :=
                map (\<lambda>r. map (\<lambda>c.
                       if rs \<le> r \<and> r < rs + rn \<and> cs \<le> c \<and> c < cs + cn
                       then astype (cells src ! (if nrows src = 1 then 0 else r - rs)
                                              ! (if ncols src = 1 then 0 else c - cs))
                       else cells dst ! r ! c) [0..<ncols dst]) [0..<nrows dst]\<rparr>)
         else Inl (ValueError BroadcastMismatch))"

text \<open>The loop over the items of the dictionary, in insertion order.\<close>

fun stitch_loop ::
  "('a \<Rightarrow> 'f) \<Rightarrow> int \<Rightarrow> (key, 'a ndarray3) dict \<Rightarrow> 'f ndarray2 \<Rightarrow> error + 'f ndarray2"
where
  "stitch_loop astype tile_size [] full_img = Inr full_img"
| "stitch_loop astype tile_size (((i, j), tile) # rest) full_img =
     (case channel0 tile of
        Inl e \<Rightarrow> Inl e
      | Inr src \<Rightarrow>
          (case setslice2 astype full_img i (i + tile_size) j (j + tile_size) src of
             Inl e \<Rightarrow> Inl e
           | Inr full_img' \<Rightarrow> stitch_loop astype tile_size rest full_img'))"

text \<open>
  \<^verbatim>\<open>jahit_tiles\<close>: the float64 zero array of the first two entries of
  \<open>output_shape\<close>, the tile size read from the first value of the dictionary
  (\<open>StopIteration\<close> when there is none), then the loop. With fewer than two entries in
  \<open>output_shape\<close> the first iteration raises \<open>IndexError\<close> (from
  \<^verbatim>\<open>tile[..., 0]\<close> or from the two-axis index into the array), and the loop has an
  iteration, the dictionary not being empty.
\<close>

definition jahit_tiles ::
  "('a \<Rightarrow> 'f) \<Rightarrow> (key, 'a ndarray3) dict \<Rightarrow> nat list \<Rightarrow> error + 'f::zero ndarray2"
where
  "jahit_tiles astype tiles output_shape =
     (let full_img = np_zeros (take 2 output_shape)
      in case tiles of
           [] \<Rightarrow> Inl StopIteration
         | (k, first_tile) # _ \<Rightarrow>
             (let tile_size = int (dim0 first_tile)
              in case full_img of
                   None \<Rightarrow> Inl IndexError
                 | Some full \<Rightarrow> stitch_loop astype tile_size tiles full))"

text \<open>
  The cast of numpy from a signed or unsigned integer type of at most 64 bits to
  float64, the float64 value written as the real number it denotes: the integer is
  rounded to 53 significant bits, to the nearest value and to the even one of two
  nearest. \<open>bit_length\<close> is the number of binary digits of a positive integer.
\<close>

function bit_length :: "int \<Rightarrow> nat" where
  "bit_length n = (if n \<le> 0 then 0 else Suc (bit_length (n div 2)))"
  by pat_completeness auto
termination
  by (relation "measure nat") auto

declare bit_length.simps [simp del]

definition float64_of_int :: "int \<Rightarrow> real" where
  "float64_of_int n =
     (let m = \<bar>n\<bar>;
          e = bit_length m - 53;
          q = m div 2 ^ e;
          r = m mod 2 ^ e;
          q' = (if 2 ^ e < 2 * r \<or> (2 * r = 2 ^ e \<and> odd q) then q + 1 else q)
      in of_int (sgn n * (q' * 2 ^ e)))"

text \<open>
  Vocabulary for the Stitcher's claims: a tile with \<open>t\<close> rows, \<open>t\<close> columns and at least
  one band; a key whose \<open>t\<close> by \<open>t\<close> block lies inside an \<open>h\<close> by \<open>w\<close> array; the cell
  \<open>(r, c)\<close> lying in the block of a key; two keys whose blocks share a cell; and the
  value that the last tile of the dictionary covering a cell has for it.
\<close>

definition tile_ok :: "nat \<Rightarrow> 'a ndarray3 \<Rightarrow> bool" where
  "tile_ok t tile \<longleftrightarrow> valid3 tile \<and> dim0 tile = t \<and> dim1 tile = t \<and> 0 < dim2 tile"

definition fits :: "nat \<Rightarrow> nat \<Rightarrow> nat \<Rightarrow> key \<Rightarrow> bool" where
  "fits h w t k \<longleftrightarrow> 0 \<le> fst k \<and> fst k + int t \<le> int h \<and> 0 \<le> snd k \<and> snd k + int t \<le> int w"

definition covers :: "nat \<Rightarrow> key \<Rightarrow> nat \<Rightarrow> nat \<Rightarrow> bool" where
  "covers t k r c \<longleftrightarrow>
     fst k \<le> int r \<and> int r < fst k + int t \<and> snd k \<le> int c \<and> int c < snd k + int t"

definition overlap :: "nat \<Rightarrow> key \<Rightarrow> key \<Rightarrow> bool" where
  "overlap t k k' \<longleftrightarrow>
     fst k < fst k' + int t \<and> fst k' < fst k + int t \<and>
     snd k < snd k' + int t \<and> snd k' < snd k + int t"

definition tile_value :: "key \<Rightarrow> 'a ndarray3 \<Rightarrow> nat \<Rightarrow> nat \<Rightarrow> 'a" where
  "tile_value k tile r c = elems tile ! (r - nat (fst k)) ! (c - nat (snd k)) ! 0"

fun last_cover :: "nat \<Rightarrow> (key, 'a ndarray3) dict \<Rightarrow> nat \<Rightarrow> nat \<Rightarrow> 'a option" where
  "last_cover t [] r c = None"
| "last_cover t ((k, tile) # rest) r c =
     (case last_cover t rest r c of
        Some v \<Rightarrow> Some v
      | None \<Rightarrow> if covers t k r c then Some (tile_value k tile r c) else None)"

section \<open>The DatasetSplitter: \<^verbatim>\<open>split_tiles\<close>\<close>

text \<open>
  Modelled from the spec: \<^verbatim>\<open>train_test_split(xs, test_size=0.2)\<close>, the function
  of scikit-learn that \<open>split_tiles\<close> calls; its code is not among the sources. The
  spec describes a random, unseeded selection of a train and a test list that are
  disjoint, cover all keys and have about \<open>0.8 * n\<close> and \<open>0.2 * n\<close> entries. The
  sizes and the failure are those of the library's documentation: for \<open>n\<close> samples
  \<open>n_test = ceil(0.2 * n)\<close> and \<open>n_train = n - n_test\<close>, a \<open>ValueError\<close> when the
  train set would be empty, then a random permutation of \<open>0..<n\<close> whose first
  \<open>n_test\<close> indices select the test list and whose next \<open>n_train\<close> indices select
  the train list. The permutation drawn, \<open>perm\<close>, is a parameter of the model.
  \<open>ceil(0.2 * n)\<close> is \<open>(n + 4) div 5\<close>.
\<close>

definition is_permutation :: "nat list \<Rightarrow> nat \<Rightarrow> bool" where
  "is_permutation perm n \<longleftrightarrow> sort perm = [0..<n]"

definition train_test_split :: "nat list \<Rightarrow> 'a list \<Rightarrow> error + ('a list \<times> 'a list)" where
  "train_test_split perm xs =
     (let n_samples = length xs;
          n_test = (n_samples + 4) div 5;
          n_train = n_samples - n_test
      in if n_train = 0 then Inl (ValueError EmptyTrainSet)
         else Inr (map (\<lambda>i. xs ! i) (take n_train (drop n_test perm)),
                   map (\<lambda>i. xs ! i) (take n_test perm)))"

text \<open>
  \<^verbatim>\<open>[tiles[idx] for idx in indices]\<close>: the lookups in the order of the list, the
  first missing key raising \<open>KeyError\<close>. \<^verbatim>\<open>np.array\<close> of the resulting list of
  equally shaped tiles is their stack along a new first axis: the list itself here.
\<close>

fun gather :: "(key, 'v) dict \<Rightarrow> key list \<Rightarrow> error + 'v list" where
  "gather tiles [] = Inr []"
| "gather tiles (idx # indices) =
     (case dict_get tiles idx of
        Inl e \<Rightarrow> Inl e
      | Inr tile \<Rightarrow>
          (case gather tiles indices of
             Inl e \<Rightarrow> Inl e
           | Inr rest \<Rightarrow> Inr (tile # rest)))"

definition split_tiles ::
  "nat list \<Rightarrow> (key, 'a) dict \<Rightarrow> (key, 'b) dict \<Rightarrow>
   error + (key list \<times> key list \<times> 'a list \<times> 'b list \<times> 'a list \<times> 'b list)"
where
  "split_tiles perm satellite_tiles vegetation_tiles =
     (let tile_indices = dict_keys satellite_tiles
      in case train_test_split perm tile_indices of
           Inl e \<Rightarrow> Inl e
         | Inr (train_indices, test_indices) \<Rightarrow>
             (case gather satellite_tiles train_indices of
                Inl e \<Rightarrow> Inl e
              | Inr sat_train \<Rightarrow>
             (case gather vegetation_tiles train_indices of
                Inl e \<Rightarrow> Inl e
              | Inr veg_train \<Rightarrow>
             (case gather satellite_tiles test_indices of
                Inl e \<Rightarrow> Inl e
              | Inr sat_test \<Rightarrow>
             (case gather vegetation_tiles test_indices of
                Inl e \<Rightarrow> Inl e
              | Inr veg_test \<Rightarrow>
                  Inr (train_indices, test_indices, sat_train, veg_train, sat_test, veg_test))))))"

section \<open>The SegmentationModel: \<^verbatim>\<open>uncompiled_unet\<close>\<close>

text \<open>
  One sample of a batch: a tensor of shape (height, width, channels), its values a
  function of the three indices that is read inside the shape only. The type \<open>'v\<close> of
  the values is that of the runtime's numbers, 32-bit floats in Keras: it is left open
  here, and so is their arithmetic (see \<open>runtime\<close> below). The trainable parameters of
  a convolution are its kernel, indexed by row, column, input channel and filter, and
  its bias; those of the network are the parameters of its six convolutions, whatever
  values initialisation or training gave them.
\<close>

record 'v tensor =
  th :: nat
  tw :: nat
  tc :: nat
  tval :: "nat \<Rightarrow> nat \<Rightarrow> nat \<Rightarrow> 'v"

record 'v conv_params =
  kernel :: "nat \<Rightarrow> nat \<Rightarrow> nat \<Rightarrow> nat \<Rightarrow> 'v"
  bias :: "nat \<Rightarrow> 'v"

record 'v unet_params =
  w_conv1 :: "'v conv_params"
  w_conv2 :: "'v conv_params"
  w_conv3 :: "'v conv_params"
  w_conv4 :: "'v conv_params"
  w_conv5 :: "'v conv_params"
  w_output :: "'v conv_params"

datatype padding = Same | Valid

text \<open>
  The floating-point arithmetic of the runtime, as the four operations on values that
  the layers use: \<open>rt_conv\<close> is the value of one output position of a convolution
  before the activation (the bias plus the products of the window with the kernel,
  summed in the runtime's order with the runtime's rounding, overflow and NaN),
  \<open>rt_relu\<close> and \<open>rt_sigmoid\<close> are the two activations, \<open>rt_max\<close> is the maximum of
  a pooling window. Nothing is assumed of them: what is proved for every runtime holds
  of the real one.
\<close>

record 'v runtime =
  rt_conv :: "padding \<Rightarrow> nat \<times> nat \<Rightarrow> 'v conv_params \<Rightarrow> 'v tensor \<Rightarrow> nat \<Rightarrow> nat \<Rightarrow> nat \<Rightarrow> 'v"
  rt_relu :: "'v \<Rightarrow> 'v"
  rt_sigmoid :: "'v \<Rightarrow> 'v"
  rt_max :: "'v list \<Rightarrow> 'v"

text \<open>
  Modelled from the spec: the layers of Keras that \<open>uncompiled_unet\<close> composes; their
  code is not among the sources. A convolution with same-size padding and stride 1
  keeps the spatial size, one without padding loses \<open>kernel - 1\<close>; each output value
  is the activation of the runtime's convolution value at that position. A layer is
  built for a fixed number of input channels and rejects an input with another one. Max
  pooling with a 2 by 2 window and stride 2 halves each spatial size, rounding down;
  upsampling by 2 repeats every value twice along each spatial axis; concatenation
  along the channels needs equal spatial sizes and fails on a mismatch, and puts the
  channels of its first argument before those of the second.
\<close>

definition conv2d ::
  "'v runtime \<Rightarrow> nat \<Rightarrow> nat \<Rightarrow> nat \<times> nat \<Rightarrow> ('v \<Rightarrow> 'v) \<Rightarrow> padding \<Rightarrow> 'v conv_params
     \<Rightarrow> 'v tensor \<Rightarrow> error + 'v tensor"
where
  "conv2d rt in_channels filters kernel_size activation pad p x =
     (let (kh, kw) = kernel_size;
          (oh, ow) = (case pad of
                        Same \<Rightarrow> (th x, tw x)
                      | Valid \<Rightarrow> (th x + 1 - kh, tw x + 1 - kw))
      in if tc x \<noteq> in_channels then Inl (ValueError ShapeMismatch)
         else Inr \<lparr>th = oh, tw = ow, tc = filters,
                tval = \<lambda>i j f. activation (rt_conv rt pad kernel_size p x i j f)\<rparr>)"

definition max_pooling2d :: "'v runtime \<Rightarrow> 'v tensor \<Rightarrow> 'v tensor" where
  "max_pooling2d rt x =
     \<lparr>th = th x div 2, tw = tw x div 2, tc = tc x,
      tval = \<lambda>i j c. rt_max rt [tval x (2 * i) (2 * j) c, tval x (2 * i) (2 * j + 1) c,
                                  tval x (2 * i + 1) (2 * j) c, tval x (2 * i + 1) (2 * j + 1) c]\<rparr>"

definition up_sampling2d :: "'v tensor \<Rightarrow> 'v tensor" where
  "up_sampling2d x =
     \<lparr>th = 2 * th x, tw = 2 * tw x, tc = tc x,
      tval = \<lambda>i j c. tval x (i div 2) (j div 2) c\<rparr>"

definition concatenate :: "'v tensor \<Rightarrow> 'v tensor \<Rightarrow> error + 'v tensor" where
  "concatenate x y =
     (if th x = th y \<and> tw x = tw y
      then Inr \<lparr>th = th x, tw = tw x, tc = tc x + tc y,
                tval = \<lambda>i j c. if c < tc x then tval x i j c else tval y i j (c - tc x)\<rparr>
      else Inl (ValueError ShapeMismatch))"

text \<open>
  \<open>uncompiled_unet\<close> (src/model.py), applied to one sample: the graph that the function
  builds, layer by layer under the names of the source. The input layer fixes 4
  channels and leaves height and width open; the channel counts of the later
  convolutions are those of the tensors the graph feeds them.
\<close>

definition uncompiled_unet :: "'v runtime \<Rightarrow> 'v unet_params \<Rightarrow> 'v tensor \<Rightarrow> error + 'v tensor" where
  "uncompiled_unet rt p inputs =
     (case conv2d rt 4 32 (3, 3) (rt_relu rt) Same (w_conv1 p) inputs of
        Inl e \<Rightarrow> Inl e
      | Inr conv1 \<Rightarrow>
     (let pool1 = max_pooling2d rt conv1
      in case conv2d rt 32 64 (3, 3) (rt_relu rt) Same (w_conv2 p) pool1 of
        Inl e \<Rightarrow> Inl e
      | Inr conv2 \<Rightarrow>
     (let pool2 = max_pooling2d rt conv2
      in case conv2d rt 64 128 (3, 3) (rt_relu rt) Same (w_conv3 p) pool2 of
        Inl e \<Rightarrow> Inl e
      | Inr conv3 \<Rightarrow>
     (case concatenate (up_sampling2d conv3) conv2 of
        Inl e \<Rightarrow> Inl e
      | Inr up4 \<Rightarrow>
     (case conv2d rt (128 + 64) 64 (3, 3) (rt_relu rt) Same (w_conv4 p) up4 of
        Inl e \<Rightarrow> Inl e
      | Inr conv4 \<Rightarrow>
     (case concatenate (up_sampling2d conv4) conv1 of
        Inl e \<Rightarrow> Inl e
      | Inr up5 \<Rightarrow>
     (case conv2d rt (64 + 32) 32 (3, 3) (rt_relu rt) Same (w_conv5 p) up5 of
        Inl e \<Rightarrow> Inl e
      | Inr conv5 \<Rightarrow>
          conv2d rt 32 1 (1, 1) (rt_sigmoid rt) Valid (w_output p) conv5)))))))"

text \<open>
  One runtime, to run the network on: a value is NaN or a number, and NaN propagates as
  in IEEE 754 arithmetic, where every sum and product with a NaN operand is NaN; the
  activations of the runtime return NaN on NaN. A convolution value is therefore NaN as
  soon as the bias or a value or weight of its window is NaN. Numbers are kept exact
  here; the rounding and the overflow of 32-bit floats are not part of this runtime,
  which is used below only for where NaN goes. Padding is with zeros. \<open>in_unit\<close> is
  membership of the closed interval from 0 to 1, which NaN is not in (every comparison
  with NaN is false).
\<close>

datatype float32 = NaN | Num real

fun num :: "float32 \<Rightarrow> real" where
  "num (Num x) = x"
| "num NaN = 0"


definition nan_relu :: "float32 \<Rightarrow> float32" where
  "nan_relu v = (case v of NaN \<Rightarrow> NaN | Num x \<Rightarrow> Num (max 0 x))"

definition nan_sigmoid :: "float32 \<Rightarrow> float32" where
  "nan_sigmoid v = (case v of NaN \<Rightarrow> NaN | Num x \<Rightarrow> Num (1 / (1 + exp (- x))))"

definition nan_max :: "float32 list \<Rightarrow> float32" where
  "nan_max vs = (if NaN \<in> set vs then NaN else Num (fold max (map num vs) (num (hd vs))))"

definition padded :: "float32 tensor \<Rightarrow> int \<Rightarrow> int \<Rightarrow> nat \<Rightarrow> float32" where
  "padded x i j c =
     (if 0 \<le> i \<and> i < int (th x) \<and> 0 \<le> j \<and> j < int (tw x)
      then tval x (nat i) (nat j) c else Num 0)"

definition conv_window ::
  "padding \<Rightarrow> nat \<times> nat \<Rightarrow> float32 conv_params \<Rightarrow> float32 tensor \<Rightarrow> nat \<Rightarrow> nat \<Rightarrow> nat
     \<Rightarrow> (float32 \<times> float32) list"
where
  "conv_window pad kernel_size p x i j f =
     (let (kh, kw) = kernel_size;
          (ph, pw) = (case pad of Same \<Rightarrow> ((kh - 1) div 2, (kw - 1) div 2) | Valid \<Rightarrow> (0, 0))
      in concat (map (\<lambda>a. concat (map (\<lambda>b. map (\<lambda>c.
           (padded x (int i + int a - int ph) (int j + int b - int pw) c, kernel p a b c f))
           [0..<tc x]) [0..<kw])) [0..<kh]))"

definition nan_conv ::
  "padding \<Rightarrow> nat \<times> nat \<Rightarrow> float32 conv_params \<Rightarrow> float32 tensor \<Rightarrow> nat \<Rightarrow> nat \<Rightarrow> nat \<Rightarrow> float32"
where
  "nan_conv pad kernel_size p x i j f =
     (let window = conv_window pad kernel_size p x i j f
      in if bias p f = NaN \<or> (\<exists>(v, w) \<in> set window. v = NaN \<or> w = NaN) then NaN
         else Num (num (bias p f) + (\<Sum>(v, w) \<leftarrow> window. num v * num w)))"

definition nan_runtime :: "float32 runtime" where
  "nan_runtime = \<lparr>rt_conv = nan_conv, rt_relu = nan_relu, rt_sigmoid = nan_sigmoid, rt_max = nan_max\<rparr>"

text \<open>
  Parameters that are all zero, an input patch of 4 channels, and the same patch with a
  nodata pixel at the position (0, 0), all of whose bands are NaN.
\<close>

definition zero_conv :: "float32 conv_params" where
  "zero_conv = \<lparr>kernel = \<lambda>a b c f. Num 0, bias = \<lambda>f. Num 0\<rparr>"

definition zero_unet :: "float32 unet_params" where
  "zero_unet = \<lparr>w_conv1 = zero_conv, w_conv2 = zero_conv, w_conv3 = zero_conv,
     w_conv4 = zero_conv, w_conv5 = zero_conv, w_output = zero_conv\<rparr>"

definition patch :: "nat \<Rightarrow> nat \<Rightarrow> float32 tensor" where
  "patch h w = \<lparr>th = h, tw = w, tc = 4, tval = \<lambda>i j c. Num (real (i + j + c))\<rparr>"


text \<open>Small tiles and rasters used to run the functions.\<close>

definition tile_ones :: "int ndarray3" where
  "tile_ones = \<lparr>dim0 = 2, dim1 = 2, dim2 = 1, elems = [[[1], [1]], [[1], [1]]]\<rparr>"

definition tile_twos :: "int ndarray3" where
  "tile_twos = \<lparr>dim0 = 2, dim1 = 2, dim2 = 1, elems = [[[2], [2]], [[2], [2]]]\<rparr>"

definition tile_pixel :: "int ndarray3" where
  "tile_pixel = \<lparr>dim0 = 1, dim1 = 1, dim2 = 1, elems = [[[7]]]\<rparr>"

definition raster_448 :: "int ndarray3" where
  "raster_448 =
     \<lparr>dim0 = 448, dim1 = 448, dim2 = 1,
      elems = map (\<lambda>r. map (\<lambda>c. [int r * 448 + int c]) [0..<448]) [0..<448]\<rparr>"

definition raster_empty :: "int ndarray3" where
  "raster_empty = \<lparr>dim0 = 0, dim1 = 4, dim2 = 1, elems = []\<rparr>"

definition raster_big :: "int ndarray3" where
  "raster_big = \<lparr>dim0 = 1, dim1 = 1, dim2 = 1, elems = [[[9007199254740993]]]\<rparr>"

text \<open>Two satellite tiles, and label dictionaries with the same keys, one more and one fewer.\<close>

definition sat_two :: "(key, int ndarray3) dict" where
  "sat_two = [((0, 0), tile_ones), ((0, 2), tile_twos)]"

definition veg_two :: "(key, int ndarray3) dict" where
  "veg_two = [((0, 0), tile_twos), ((0, 2), tile_ones)]"

definition veg_three :: "(key, int ndarray3) dict" where
  "veg_three = [((0, 0), tile_twos), ((0, 2), tile_ones), ((2, 0), tile_pixel)]"

definition veg_one :: "(key, int ndarray3) dict" where
  "veg_one = [((0, 0), tile_twos)]"

section \<open>Properties of ranges, slices and dictionaries\<close>

lemma dict_set_fresh: "k \<notin> fst ` set d \<Longrightarrow> dict_set d k v = d @ [(k, v)]"
  by (induction d) auto

lemma py_range_set:
  "0 < step \<Longrightarrow> set (py_range i stop step) = {x. i \<le> x \<and> x < stop \<and> step dvd (x - i)}"
proof (induction i stop step rule: py_range.induct)
  case (1 i stop step)
  show ?case
  proof (cases "i < stop")
    case True
    have ih: "set (py_range (i + step) stop step) = {x. i + step \<le> x \<and> x < stop \<and> step dvd (x - (i + step))}"
      using 1 True by simp
    have "{x. i \<le> x \<and> x < stop \<and> step dvd (x - i)} = insert i {x. i + step \<le> x \<and> x < stop \<and> step dvd (x - (i + step))}"
    proof (intro set_eqI iffI)
      fix x assume "x \<in> {x. i \<le> x \<and> x < stop \<and> step dvd (x - i)}"
      then have a: "i \<le> x" "x < stop" "step dvd (x - i)" by auto
      show "x \<in> insert i {x. i + step \<le> x \<and> x < stop \<and> step dvd (x - (i + step))}"
      proof (cases "x = i")
        case False
        then have "0 < x - i" using a by simp
        then have "step \<le> x - i" using a(3) zdvd_imp_le by blast
        moreover have "step dvd (x - (i + step))" using a(3)
          by (metis diff_diff_add dvd_diff dvd_refl)
        ultimately show ?thesis using a by simp
      qed simp
    next
      fix x assume "x \<in> insert i {x. i + step \<le> x \<and> x < stop \<and> step dvd (x - (i + step))}"
      then consider "x = i" | "i + step \<le> x" "x < stop" "step dvd (x - (i + step))" by auto
      then show "x \<in> {x. i \<le> x \<and> x < stop \<and> step dvd (x - i)}"
      proof cases
        case 1 then show ?thesis using True by simp
      next
        case 2
        have "step dvd (x - (i + step)) + step" by (rule dvd_add [OF 2(3) dvd_refl])
        moreover have "(x - (i + step)) + step = x - i" by simp
        ultimately have "step dvd (x - i)" by metis
        then show ?thesis using 2 \<open>0 < step\<close> by simp
      qed
    qed
    then show ?thesis using True \<open>0 < step\<close> ih by (subst py_range.simps) simp
  next
    case False
    then show ?thesis using \<open>0 < step\<close> by (subst py_range.simps) auto
  qed
qed

lemma py_range_distinct: "0 < step \<Longrightarrow> distinct (py_range i stop step)"
proof (induction i stop step rule: py_range.induct)
  case (1 i stop step)
  show ?case
  proof (cases "i < stop")
    case True
    have "i \<notin> set (py_range (i + step) stop step)"
      using 1(2) by (simp add: py_range_set)
    then show ?thesis using 1 True by (subst py_range.simps) simp
  next
    case False
    then show ?thesis using 1(2) by (subst py_range.simps) auto
  qed
qed

lemma py_range_nonpos: "step < 0 \<Longrightarrow> 0 \<le> stop \<Longrightarrow> py_range 0 stop step = []"
  by (subst py_range.simps) simp

lemma slice_bounds_window:
  assumes "0 \<le> i" "0 \<le> t"
  shows "slice_bounds n i (i + t) = (min (nat i) n, min (nat (i + t)) n - min (nat i) n)"
  using assms by (auto simp: slice_bounds_def slice_index_def Let_def)

lemma slice_len_full:
  assumes "0 \<le> i" "i < int n" "0 < t"
  shows "int (snd (slice_bounds n i (i + t))) = t \<longleftrightarrow> i + t \<le> int n"
  using assms by (auto simp: slice_bounds_window min_def)

lemma cut_cols_Cons:
  "cut_cols img t i (j # js) tiles =
     cut_cols img t i js
       (if keep img t i j then dict_set tiles (i, j) (getslice2 img i (i + t) j (j + t)) else tiles)"
  by (simp add: keep_def Let_def)

lemma cut_cols_eq:
  "distinct js \<Longrightarrow> \<forall>j \<in> set js. (i, j) \<notin> fst ` set tiles \<Longrightarrow>
   cut_cols img t i js tiles =
     tiles @ map (\<lambda>j. ((i, j), getslice2 img i (i + t) j (j + t))) (filter (keep img t i) js)"
proof (induction js arbitrary: tiles)
  case Nil
  then show ?case by simp
next
  case (Cons j js)
  show ?case
  proof (cases "keep img t i j")
    case True
    have fresh: "(i, j) \<notin> fst ` set tiles" using Cons.prems by simp
    let ?tiles' = "tiles @ [((i, j), getslice2 img i (i + t) j (j + t))]"
    have "\<forall>j' \<in> set js. (i, j') \<notin> fst ` set ?tiles'"
      using Cons.prems by auto
    then have "cut_cols img t i js ?tiles' =
       ?tiles' @ map (\<lambda>j. ((i, j), getslice2 img i (i + t) j (j + t))) (filter (keep img t i) js)"
      using Cons.IH [of ?tiles'] Cons.prems by simp
    then show ?thesis using True fresh
      by (simp add: cut_cols_Cons dict_set_fresh del: cut_cols.simps)
  next
    case False
    have "cut_cols img t i js tiles =
       tiles @ map (\<lambda>j. ((i, j), getslice2 img i (i + t) j (j + t))) (filter (keep img t i) js)"
      using Cons.IH [of tiles] Cons.prems by simp
    then show ?thesis using False
      by (simp add: cut_cols_Cons del: cut_cols.simps)
  qed
qed

lemma cut_rows_eq:
  "distinct rws \<Longrightarrow> distinct js \<Longrightarrow> \<forall>i \<in> set rws. \<forall>j \<in> set js. (i, j) \<notin> fst ` set tiles \<Longrightarrow>
   cut_rows img t rws js tiles =
     tiles @ concat (map (\<lambda>i. map (\<lambda>j. ((i, j), getslice2 img i (i + t) j (j + t)))
                               (filter (keep img t i) js)) rws)"
proof (induction rws arbitrary: tiles)
  case Nil
  then show ?case by simp
next
  case (Cons i rws)
  let ?tiles' = "cut_cols img t i js tiles"
  have eq: "?tiles' = tiles @ map (\<lambda>j. ((i, j), getslice2 img i (i + t) j (j + t))) (filter (keep img t i) js)"
    using Cons.prems by (intro cut_cols_eq) auto
  have "\<forall>i' \<in> set rws. \<forall>j \<in> set js. (i', j) \<notin> fst ` set ?tiles'"
    using Cons.prems unfolding eq by (fastforce simp: image_iff)
  then have "cut_rows img t rws js ?tiles' =
     ?tiles' @ concat (map (\<lambda>i. map (\<lambda>j. ((i, j), getslice2 img i (i + t) j (j + t)))
                               (filter (keep img t i) js)) rws)"
    using Cons.IH [of ?tiles'] Cons.prems by simp
  then show ?case by (simp add: eq)
qed

lemma slice_index_le: "slice_index n k \<le> n"
  by (auto simp: slice_index_def)

lemma slice_bounds_in_range:
  "slice_bounds n a b = (s, l) \<Longrightarrow> s + l \<le> n"
  using slice_index_le [of n a] slice_index_le [of n b]
  by (auto simp: slice_bounds_def Let_def split: if_splits)

lemma getslice2_dims:
  "dim0 (getslice2 img a b c d) = snd (slice_bounds (dim0 img) a b)"
  "dim1 (getslice2 img a b c d) = snd (slice_bounds (dim1 img) c d)"
  "dim2 (getslice2 img a b c d) = dim2 img"
  by (simp_all add: getslice2_def Let_def split: prod.splits)

lemma getslice2_valid:
  assumes "valid3 img"
  shows "valid3 (getslice2 img a b c d)"
proof -
  obtain rs rn where r: "slice_bounds (dim0 img) a b = (rs, rn)" by (cases "slice_bounds (dim0 img) a b")
  obtain cs cn where c: "slice_bounds (dim1 img) c d = (cs, cn)" by (cases "slice_bounds (dim1 img) c d")
  have rb: "rs + rn \<le> dim0 img" using slice_bounds_in_range [OF r] .
  have cb: "cs + cn \<le> dim1 img" using slice_bounds_in_range [OF c] .
  have len: "length (elems img) = dim0 img" using assms by (simp add: valid3_def)
  have rows: "\<And>row. row \<in> set (elems img) \<Longrightarrow> length row = dim1 img"
    and pix: "\<And>row p. row \<in> set (elems img) \<Longrightarrow> p \<in> set row \<Longrightarrow> length p = dim2 img"
    using assms by (auto simp: valid3_def)
  have "length (take rn (drop rs (elems img))) = rn" using rb len by simp
  moreover have "length (take cn (drop cs row)) = cn \<and> (\<forall>p \<in> set (take cn (drop cs row)). length p = dim2 img)"
    if "row \<in> set (take rn (drop rs (elems img)))" for row
  proof -
    have m: "row \<in> set (elems img)" using that by (auto dest!: in_set_takeD in_set_dropD)
    have "length (take cn (drop cs row)) = cn" using rows [OF m] cb by simp
    moreover have "length p = dim2 img" if "p \<in> set (take cn (drop cs row))" for p
      using pix [OF m, of p] that by (auto dest!: in_set_takeD in_set_dropD)
    ultimately show ?thesis by blast
  qed
  ultimately show ?thesis
    by (simp add: getslice2_def r c valid3_def)
qed

lemma keep_iff:
  assumes "0 \<le> i" "i < int (dim0 img)" "0 \<le> j" "j < int (dim1 img)" "0 < t"
  shows "keep img t i j \<longleftrightarrow> i + t \<le> int (dim0 img) \<and> j + t \<le> int (dim1 img)"
  using assms by (simp add: keep_def getslice2_dims slice_len_full)

lemma getslice2_elems:
  assumes "valid3 img" "0 \<le> r" "r + t \<le> int (dim0 img)" "0 \<le> c" "c + t \<le> int (dim1 img)"
    "a < nat t" "b < nat t"
  shows "elems (getslice2 img r (r + t) c (c + t)) ! a ! b = elems img ! (nat r + a) ! (nat c + b)"
proof -
  have t: "0 < t" using assms by linarith
  have rb: "slice_bounds (dim0 img) r (r + t) = (nat r, nat t)"
    using assms t by (auto simp: slice_bounds_window min_def)
  have cb: "slice_bounds (dim1 img) c (c + t) = (nat c, nat t)"
    using assms t by (auto simp: slice_bounds_window min_def)
  have len: "length (elems img) = dim0 img" using assms by (simp add: valid3_def)
  have ra: "nat r + a < dim0 img" using assms by linarith
  then have "elems img ! (nat r + a) \<in> set (elems img)" using len by simp
  then have rowlen: "length (elems img ! (nat r + a)) = dim1 img"
    using assms(1) by (simp add: valid3_def)
  have cbb: "nat c + b < dim1 img" using assms by linarith
  have "nat r \<le> length (elems img)" using ra len by simp
  then have "take (nat t) (drop (nat r) (elems img)) ! a = elems img ! (nat r + a)"
    using assms(6) by simp
  moreover have "a < length (take (nat t) (drop (nat r) (elems img)))"
    using ra len assms(6) by simp
  moreover have "take (nat t) (drop (nat c) (elems img ! (nat r + a))) ! b = elems img ! (nat r + a) ! (nat c + b)"
    using cbb rowlen assms(7) by simp
  ultimately show ?thesis
    by (simp add: getslice2_def rb cb)
qed

lemma cut_into_tiles_closed:
  assumes "0 < t"
  shows "cut_into_tiles img t =
     Inr (concat (map (\<lambda>i. map (\<lambda>j. ((i, j), getslice2 img i (i + t) j (j + t)))
                               (filter (keep img t i) (py_range 0 (int (dim1 img)) t)))
                      (py_range 0 (int (dim0 img)) t)))"
proof -
  have "cut_rows img t (py_range 0 (int (dim0 img)) t) (py_range 0 (int (dim1 img)) t) [] =
     [] @ concat (map (\<lambda>i. map (\<lambda>j. ((i, j), getslice2 img i (i + t) j (j + t)))
                               (filter (keep img t i) (py_range 0 (int (dim1 img)) t)))
                      (py_range 0 (int (dim0 img)) t))"
    using assms by (intro cut_rows_eq py_range_distinct) simp_all
  then show ?thesis using assms by (simp add: cut_into_tiles_def range3_def)
qed

lemma cut_into_tiles_mem:
  assumes "0 < t" "cut_into_tiles img t = Inr tiles"
  shows "((r, c), tile) \<in> set tiles \<longleftrightarrow>
     0 \<le> r \<and> t dvd r \<and> r + t \<le> int (dim0 img) \<and>
     0 \<le> c \<and> t dvd c \<and> c + t \<le> int (dim1 img) \<and>
     tile = getslice2 img r (r + t) c (c + t)"
proof -
  have "((r, c), tile) \<in> set tiles \<longleftrightarrow>
      r \<in> set (py_range 0 (int (dim0 img)) t) \<and> c \<in> set (py_range 0 (int (dim1 img)) t) \<and>
      keep img t r c \<and> tile = getslice2 img r (r + t) c (c + t)"
    using assms(2) unfolding cut_into_tiles_closed [OF assms(1)] by (auto simp: image_iff)
  also have "\<dots> \<longleftrightarrow> 0 \<le> r \<and> t dvd r \<and> r + t \<le> int (dim0 img) \<and>
     0 \<le> c \<and> t dvd c \<and> c + t \<le> int (dim1 img) \<and>
     tile = getslice2 img r (r + t) c (c + t)"
    using assms(1) keep_iff [of r img c t] by (auto simp: py_range_set)
  finally show ?thesis .
qed

lemma distinct_grid_keys:
  "distinct rws \<Longrightarrow> distinct js \<Longrightarrow>
   distinct (map fst (concat (map (\<lambda>i. map (\<lambda>j. ((i, j), f i j)) (filter (P i) js)) rws)))"
proof (induction rws)
  case Nil
  then show ?case by simp
next
  case (Cons i rws)
  have "distinct (map fst (map (\<lambda>j. ((i, j), f i j)) (filter (P i) js)))"
    using Cons.prems by (simp add: distinct_map comp_def inj_on_def)
  moreover have "set (map fst (map (\<lambda>j. ((i, j), f i j)) (filter (P i) js))) \<inter>
     set (map fst (concat (map (\<lambda>i. map (\<lambda>j. ((i, j), f i j)) (filter (P i) js)) rws))) = {}"
    using Cons.prems by auto
  ultimately show ?case using Cons by simp
qed

lemma cut_into_tiles_distinct:
  assumes "0 < t" "cut_into_tiles img t = Inr tiles"
  shows "distinct (dict_keys tiles)"
  using assms(2) unfolding cut_into_tiles_closed [OF assms(1)] dict_keys_def
  by (auto intro!: distinct_grid_keys py_range_distinct assms(1))

lemma grid_offsets:
  assumes "0 < t"
  shows "(0 \<le> r \<and> t dvd r \<and> r + t \<le> int n) \<longleftrightarrow> (\<exists>a < n div nat t. r = int a * t)"
proof
  assume h: "0 \<le> r \<and> t dvd r \<and> r + t \<le> int n"
  then obtain k where k: "r = t * k" by (auto elim: dvdE)
  have k0: "0 \<le> k" using h k assms by (simp add: zero_le_mult_iff)
  have "int (Suc (nat k) * nat t) = r + t" using k k0 assms by (simp add: algebra_simps)
  then have "Suc (nat k) * nat t \<le> n" using h by linarith
  then have "Suc (nat k) \<le> n div nat t" using assms by (simp add: less_eq_div_iff_mult_less_eq)
  moreover have "r = int (nat k) * t" using k k0 by simp
  ultimately show "\<exists>a < n div nat t. r = int a * t" by (metis Suc_le_lessD)
next
  assume "\<exists>a < n div nat t. r = int a * t"
  then obtain a where a: "a < n div nat t" "r = int a * t" by blast
  have "Suc a \<le> n div nat t" using a by simp
  then have "Suc a * nat t \<le> n" using assms by (simp add: less_eq_div_iff_mult_less_eq)
  then have "int (Suc a * nat t) \<le> int n" by linarith
  moreover have "int (Suc a * nat t) = r + t" using a assms by (simp add: algebra_simps)
  ultimately show "0 \<le> r \<and> t dvd r \<and> r + t \<le> int n" using a assms by simp
qed

lemma cut_into_tiles_keys:
  assumes "0 < t" "cut_into_tiles img t = Inr tiles"
  shows "set (dict_keys tiles) =
     {(int a * t, int b * t) | a b. a < dim0 img div nat t \<and> b < dim1 img div nat t}"
proof -
  have "set (dict_keys tiles) = {(r, c). \<exists>tile. ((r, c), tile) \<in> set tiles}"
    by (force simp: dict_keys_def)
  also have "\<dots> = {(r, c). (0 \<le> r \<and> t dvd r \<and> r + t \<le> int (dim0 img)) \<and>
                           (0 \<le> c \<and> t dvd c \<and> c + t \<le> int (dim1 img))}"
    by (auto simp: cut_into_tiles_mem [OF assms])
  also have "\<dots> = {(int a * t, int b * t) | a b. a < dim0 img div nat t \<and> b < dim1 img div nat t}"
    unfolding grid_offsets [OF assms(1)] by auto
  finally show ?thesis .
qed

lemma card_grid:
  assumes "0 < (t::int)"
  shows "card {(int a * t, int b * t) | a b. a < m \<and> b < n} = m * n"
proof -
  have "{(int a * t, int b * t) | a b. a < m \<and> b < n} = (\<lambda>(a, b). (int a * t, int b * t)) ` ({..<m} \<times> {..<n})"
    by auto
  moreover have "inj_on (\<lambda>(a, b). (int a * t, int b * t)) ({..<m} \<times> {..<n})"
    using assms by (auto simp: inj_on_def)
  ultimately show ?thesis by (simp add: card_image)
qed

lemma cut_into_tiles_length:
  assumes "0 < t" "cut_into_tiles img t = Inr tiles"
  shows "length tiles = (dim0 img div nat t) * (dim1 img div nat t)"
proof -
  have "length tiles = length (dict_keys tiles)" by (simp add: dict_keys_def)
  also have "\<dots> = card (set (dict_keys tiles))"
    using cut_into_tiles_distinct [OF assms] by (simp add: distinct_card)
  also have "\<dots> = (dim0 img div nat t) * (dim1 img div nat t)"
    unfolding cut_into_tiles_keys [OF assms] by (rule card_grid [OF assms(1)])
  finally show ?thesis .
qed

section \<open>Properties of the Stitcher\<close>

lemma bit_length_le: "n < 2 ^ k \<Longrightarrow> bit_length n \<le> k"
proof (induction n arbitrary: k rule: bit_length.induct)
  case (1 n)
  show ?case
  proof (cases "n \<le> 0")
    case True
    then show ?thesis by (simp add: bit_length.simps)
  next
    case False
    then obtain k' where k: "k = Suc k'" using "1.prems" by (cases k) auto
    have "n div 2 < 2 ^ k'" using "1.prems" unfolding k by simp
    then have "bit_length (n div 2) \<le> k'" using "1.IH" False by blast
    then show ?thesis using False k by (subst bit_length.simps) simp
  qed
qed

lemma float64_of_int_exact:
  assumes "\<bar>n\<bar> < 2 ^ 53"
  shows "float64_of_int n = of_int n"
proof -
  have "bit_length \<bar>n\<bar> \<le> 53" using assms by (rule bit_length_le)
  then have "bit_length \<bar>n\<bar> - 53 = 0" by simp
  then have "float64_of_int n = of_int (sgn n * \<bar>n\<bar>)"
    by (simp add: float64_of_int_def Let_def)
  also have "\<dots> = of_int n" by (simp add: mult_sgn_abs)
  finally show ?thesis .
qed

lemma float64_of_int_rounds: "float64_of_int 9007199254740993 = 9007199254740992"
  by code_simp

lemma channel0_ok:
  assumes "tile_ok t tile"
  shows "channel0 tile =
     Inr \<lparr>nrows = t, ncols = t, cells = map (map (\<lambda>p. p ! 0)) (elems tile)\<rparr>"
  using assms by (simp add: channel0_def tile_ok_def)

lemma setslice2_shape:
  "setslice2 astype dst a b c d src = Inr dst' \<Longrightarrow> nrows dst' = nrows dst \<and> ncols dst' = ncols dst \<and> valid2 dst'"
  by (auto simp: setslice2_def Let_def valid2_def split: prod.splits if_splits)

lemma setslice2_error:
  "setslice2 astype dst a b c d src = Inl e \<Longrightarrow> e = ValueError BroadcastMismatch"
  by (auto simp: setslice2_def Let_def split: prod.splits if_splits)

lemma slice_bounds_fit:
  assumes "0 \<le> i" "i + int t \<le> int n"
  shows "slice_bounds n i (i + int t) = (nat i, t)"
  using assms by (auto simp: slice_bounds_window min_def)

lemma slice_bounds_out:
  assumes "int n < i + int t" "0 < t"
  shows "snd (slice_bounds n i (i + int t)) < t"
  using assms by (auto simp: slice_bounds_def slice_index_def Let_def min_def max_def)

lemma setslice2_fit:
  assumes "valid2 dst" "tile_ok t tile" "fits (nrows dst) (ncols dst) t k"
  shows "\<exists>dst'. setslice2 astype dst (fst k) (fst k + int t) (snd k) (snd k + int t)
            \<lparr>nrows = t, ncols = t, cells = map (map (\<lambda>p. p ! 0)) (elems tile)\<rparr> = Inr dst' \<and>
          (\<forall>r < nrows dst. \<forall>c < ncols dst.
             cells dst' ! r ! c = (if covers t k r c then astype (tile_value k tile r c) else cells dst ! r ! c))"
proof -
  have rb: "slice_bounds (nrows dst) (fst k) (fst k + int t) = (nat (fst k), t)"
    using assms(3) by (intro slice_bounds_fit) (auto simp: fits_def)
  have cb: "slice_bounds (ncols dst) (snd k) (snd k + int t) = (nat (snd k), t)"
    using assms(3) by (intro slice_bounds_fit) (auto simp: fits_def)
  have k0: "0 \<le> fst k" "0 \<le> snd k" using assms(3) by (auto simp: fits_def)
  have cov: "covers t k r c \<longleftrightarrow> nat (fst k) \<le> r \<and> r < nat (fst k) + t \<and> nat (snd k) \<le> c \<and> c < nat (snd k) + t"
    for r c using k0 by (auto simp: covers_def)
  have len: "length (elems tile) = t" and rowlen: "\<And>row. row \<in> set (elems tile) \<Longrightarrow> length row = t"
    using assms(2) by (auto simp: tile_ok_def valid3_def)
  have val: "map (map (\<lambda>p. p ! 0)) (elems tile) ! (if t = 1 then 0 else r - nat (fst k))
                ! (if t = 1 then 0 else c - nat (snd k)) = tile_value k tile r c"
    if "covers t k r c" for r c
  proof -
    have a: "r - nat (fst k) < t" "c - nat (snd k) < t" using that cov by auto
    have e: "(if t = 1 then 0 else r - nat (fst k)) = r - nat (fst k)"
            "(if t = 1 then 0 else c - nat (snd k)) = c - nat (snd k)"
      using a by auto
    have "elems tile ! (r - nat (fst k)) \<in> set (elems tile)" using a len by simp
    then have "length (elems tile ! (r - nat (fst k))) = t" by (rule rowlen)
    then show ?thesis unfolding e using a len by (simp add: tile_value_def)
  qed
  define src where "src = \<lparr>nrows = t, ncols = t, cells = map (map (\<lambda>p. p ! 0)) (elems tile)\<rparr>"
  define M where "M = map (\<lambda>r. map (\<lambda>c.
                       if nat (fst k) \<le> r \<and> r < nat (fst k) + t \<and> nat (snd k) \<le> c \<and> c < nat (snd k) + t
                       then astype (cells src ! (if nrows src = 1 then 0 else r - nat (fst k))
                                              ! (if ncols src = 1 then 0 else c - nat (snd k)))
                       else cells dst ! r ! c) [0..<ncols dst]) [0..<nrows dst]"
  have res: "setslice2 astype dst (fst k) (fst k + int t) (snd k) (snd k + int t) src = Inr (dst\<lparr>cells := M\<rparr>)"
    by (simp add: setslice2_def rb cb M_def src_def)
  have Mrc: "M ! r ! c =
       (if nat (fst k) \<le> r \<and> r < nat (fst k) + t \<and> nat (snd k) \<le> c \<and> c < nat (snd k) + t
        then astype (cells src ! (if nrows src = 1 then 0 else r - nat (fst k))
                               ! (if ncols src = 1 then 0 else c - nat (snd k)))
        else cells dst ! r ! c)"
    if "r < nrows dst" "c < ncols dst" for r c
    using that unfolding M_def by simp
  have "cells (dst\<lparr>cells := M\<rparr>) ! r ! c =
          (if covers t k r c then astype (tile_value k tile r c) else cells dst ! r ! c)"
    if "r < nrows dst" "c < ncols dst" for r c
  proof (cases "covers t k r c")
    case True
    then have in_region: "nat (fst k) \<le> r \<and> r < nat (fst k) + t \<and> nat (snd k) \<le> c \<and> c < nat (snd k) + t"
      using cov [of r c] by simp
    have "M ! r ! c = astype (cells src ! (if nrows src = 1 then 0 else r - nat (fst k))
                                      ! (if ncols src = 1 then 0 else c - nat (snd k)))"
      by (simp only: Mrc [OF that] if_P [OF in_region])
    also have "\<dots> = astype (tile_value k tile r c)" using val [OF True] by (simp add: src_def)
    finally show ?thesis using True by simp
  next
    case False
    then have out_region: "\<not> (nat (fst k) \<le> r \<and> r < nat (fst k) + t \<and> nat (snd k) \<le> c \<and> c < nat (snd k) + t)"
      using cov [of r c] by simp
    have "M ! r ! c = cells dst ! r ! c"
      by (simp only: Mrc [OF that] if_not_P [OF out_region])
    then show ?thesis using False by simp
  qed
  then show ?thesis using res unfolding src_def by blast
qed

lemma setslice2_out:
  assumes "2 \<le> t" "int (nrows dst) < i + int t \<or> int (ncols dst) < j + int t"
  shows "setslice2 astype dst i (i + int t) j (j + int t) \<lparr>nrows = t, ncols = t, cells = cs\<rparr> =
           Inl (ValueError BroadcastMismatch)"
proof -
  obtain rs rn where r: "slice_bounds (nrows dst) i (i + int t) = (rs, rn)"
    by (cases "slice_bounds (nrows dst) i (i + int t)")
  obtain cs' cn where c: "slice_bounds (ncols dst) j (j + int t) = (cs', cn)"
    by (cases "slice_bounds (ncols dst) j (j + int t)")
  have "rn < t \<or> cn < t"
    using assms slice_bounds_out [of "nrows dst" i t] slice_bounds_out [of "ncols dst" j t] r c
    by auto
  then show ?thesis using assms(1) by (auto simp: setslice2_def r c)
qed

lemma stitch_loop_Cons:
  assumes "tile_ok t tile"
  shows "stitch_loop astype T ((k, tile) # rest) dst =
     (case setslice2 astype dst (fst k) (fst k + T) (snd k) (snd k + T)
             \<lparr>nrows = t, ncols = t, cells = map (map (\<lambda>p. p ! 0)) (elems tile)\<rparr> of
        Inl e \<Rightarrow> Inl e
      | Inr dst' \<Rightarrow> stitch_loop astype T rest dst')"
  by (cases k) (simp add: channel0_ok [OF assms])

lemma stitch_loop_fit:
  assumes "valid2 dst"
    and "\<forall>(k, tile) \<in> set tiles. tile_ok t tile \<and> fits (nrows dst) (ncols dst) t k"
  shows "\<exists>out. stitch_loop astype (int t) tiles dst = Inr out \<and> valid2 out \<and>
           nrows out = nrows dst \<and> ncols out = ncols dst \<and>
           (\<forall>r < nrows dst. \<forall>c < ncols dst.
              cells out ! r ! c =
                (case last_cover t tiles r c of Some v \<Rightarrow> astype v | None \<Rightarrow> cells dst ! r ! c))"
  using assms
proof (induction tiles arbitrary: dst)
  case Nil
  then show ?case by simp
next
  case (Cons x rest)
  obtain k tile where x: "x = (k, tile)" by (cases x)
  have ok: "tile_ok t tile" and fit: "fits (nrows dst) (ncols dst) t k"
    using Cons.prems(2) by (auto simp: x)
  obtain dst' where set: "setslice2 astype dst (fst k) (fst k + int t) (snd k) (snd k + int t)
            \<lparr>nrows = t, ncols = t, cells = map (map (\<lambda>p. p ! 0)) (elems tile)\<rparr> = Inr dst'"
    and cell: "\<And>r c. r < nrows dst \<Longrightarrow> c < ncols dst \<Longrightarrow>
             cells dst' ! r ! c = (if covers t k r c then astype (tile_value k tile r c) else cells dst ! r ! c)"
    using setslice2_fit [OF Cons.prems(1) ok fit, of astype] by blast
  have shp: "nrows dst' = nrows dst" "ncols dst' = ncols dst" "valid2 dst'"
    using setslice2_shape [OF set] by auto
  have "\<forall>(k, tile) \<in> set rest. tile_ok t tile \<and> fits (nrows dst') (ncols dst') t k"
    using Cons.prems(2) shp by auto
  from Cons.IH [OF shp(3) this] obtain out where
    out: "stitch_loop astype (int t) rest dst' = Inr out" "valid2 out"
      "nrows out = nrows dst'" "ncols out = ncols dst'"
    and outcell: "\<And>r c. r < nrows dst' \<Longrightarrow> c < ncols dst' \<Longrightarrow>
        cells out ! r ! c = (case last_cover t rest r c of Some v \<Rightarrow> astype v | None \<Rightarrow> cells dst' ! r ! c)"
    by blast
  have "stitch_loop astype (int t) (x # rest) dst = Inr out"
    unfolding x by (simp add: stitch_loop_Cons [OF ok] set out(1))
  moreover have "cells out ! r ! c =
       (case last_cover t (x # rest) r c of Some v \<Rightarrow> astype v | None \<Rightarrow> cells dst ! r ! c)"
    if "r < nrows dst" "c < ncols dst" for r c
    using outcell [of r c] cell [of r c] that shp unfolding x
    by (simp split: option.splits)
  ultimately show ?case using out shp by auto
qed

lemma stitch_loop_out:
  assumes "2 \<le> t"
    and "\<forall>(k, tile) \<in> set tiles. tile_ok t tile"
    and "\<exists>(k, tile) \<in> set tiles. int (nrows dst) < fst k + int t \<or> int (ncols dst) < snd k + int t"
  shows "stitch_loop astype (int t) tiles dst = Inl (ValueError BroadcastMismatch)"
  using assms
proof (induction tiles arbitrary: dst)
  case Nil
  then show ?case by simp
next
  case (Cons x rest)
  obtain k tile where x: "x = (k, tile)" by (cases x)
  have ok: "tile_ok t tile" using Cons.prems(2) by (auto simp: x)
  let ?src = "\<lparr>nrows = t, ncols = t, cells = map (map (\<lambda>p. p ! 0)) (elems tile)\<rparr>"
  show ?case
  proof (cases "setslice2 astype dst (fst k) (fst k + int t) (snd k) (snd k + int t) ?src")
    case (Inl e)
    then have "e = ValueError BroadcastMismatch" by (rule setslice2_error)
    then show ?thesis unfolding x by (simp add: stitch_loop_Cons [OF ok] Inl)
  next
    case (Inr dst')
    have shp: "nrows dst' = nrows dst" "ncols dst' = ncols dst"
      using setslice2_shape [OF Inr] by auto
    have "\<not> (int (nrows dst) < fst k + int t \<or> int (ncols dst) < snd k + int t)"
      using setslice2_out [OF Cons.prems(1), of dst "fst k" "snd k" astype] Inr by auto
    then have "\<exists>(k, tile) \<in> set rest. int (nrows dst') < fst k + int t \<or> int (ncols dst') < snd k + int t"
      using Cons.prems(3) shp unfolding x by auto
    moreover have "\<forall>(k, tile) \<in> set rest. tile_ok t tile" using Cons.prems(2) by auto
    ultimately have "stitch_loop astype (int t) rest dst' = Inl (ValueError BroadcastMismatch)"
      using Cons.IH [OF Cons.prems(1)] by blast
    then show ?thesis unfolding x by (simp add: stitch_loop_Cons [OF ok] Inr)
  qed
qed

lemma last_cover_none:
  "\<forall>k \<in> set (dict_keys tiles). \<not> covers t k r c \<Longrightarrow> last_cover t tiles r c = None"
  by (induction tiles) (auto simp: dict_keys_def)

lemma last_cover_unique:
  assumes "distinct (dict_keys tiles)" "(k, tile) \<in> set tiles" "covers t k r c"
    and "\<forall>k' \<in> set (dict_keys tiles). k' \<noteq> k \<longrightarrow> \<not> covers t k' r c"
  shows "last_cover t tiles r c = Some (tile_value k tile r c)"
  using assms
proof (induction tiles)
  case Nil
  then show ?case by simp
next
  case (Cons x rest)
  obtain k0 t0 where x: "x = (k0, t0)" by (cases x)
  show ?case
  proof (cases "(k, tile) \<in> set rest")
    case True
    have "distinct (dict_keys rest)" using Cons.prems(1) by (simp add: dict_keys_def)
    moreover have "\<forall>k' \<in> set (dict_keys rest). k' \<noteq> k \<longrightarrow> \<not> covers t k' r c"
      using Cons.prems(4) by (simp add: dict_keys_def)
    ultimately have "last_cover t rest r c = Some (tile_value k tile r c)"
      using Cons.IH True Cons.prems(3) by blast
    then show ?thesis unfolding x by simp
  next
    case False
    then have eq: "k0 = k" "t0 = tile" using Cons.prems(2) x by auto
    have "k \<notin> set (dict_keys rest)" using Cons.prems(1) x eq by (simp add: dict_keys_def)
    moreover have "\<forall>k' \<in> set (dict_keys rest). k' \<noteq> k \<longrightarrow> \<not> covers t k' r c"
      using Cons.prems(4) by (simp add: dict_keys_def)
    ultimately have "\<forall>k' \<in> set (dict_keys rest). \<not> covers t k' r c"
      by metis
    then have "last_cover t rest r c = None" by (rule last_cover_none)
    then show ?thesis unfolding x eq using Cons.prems(3) by simp
  qed
qed

lemma covers_overlap: "covers t k r c \<Longrightarrow> covers t k' r c \<Longrightarrow> overlap t k k'"
  by (auto simp: covers_def overlap_def)

lemma jahit_tiles_unfold:
  assumes "tiles \<noteq> []" "\<forall>(k, tile) \<in> set tiles. tile_ok t tile"
  shows "jahit_tiles astype tiles (h # w # rest) =
     stitch_loop astype (int t) tiles \<lparr>nrows = h, ncols = w, cells = replicate h (replicate w 0)\<rparr>"
proof -
  obtain k0 t0 tl where tiles: "tiles = (k0, t0) # tl" using assms(1) by (cases tiles) auto
  have "dim0 t0 = t" using assms(2) by (simp add: tiles tile_ok_def)
  then show ?thesis by (simp add: jahit_tiles_def np_zeros_def tiles)
qed

lemma jahit_tiles_fit:
  fixes astype :: "'a \<Rightarrow> 'f::zero"
  assumes "tiles \<noteq> []" "\<forall>(k, tile) \<in> set tiles. tile_ok t tile \<and> fits h w t k"
  shows "\<exists>out. jahit_tiles astype tiles (h # w # rest) = Inr out \<and> valid2 out \<and>
           nrows out = h \<and> ncols out = w \<and>
           (\<forall>r < h. \<forall>c < w.
              cells out ! r ! c = (case last_cover t tiles r c of Some v \<Rightarrow> astype v | None \<Rightarrow> 0))"
proof -
  let ?z = "\<lparr>nrows = h, ncols = w, cells = replicate h (replicate w (0::'f))\<rparr>"
  have ok: "\<forall>(k, tile) \<in> set tiles. tile_ok t tile" using assms(2) by auto
  have v: "valid2 ?z" by (simp add: valid2_def)
  have f: "\<forall>(k, tile) \<in> set tiles. tile_ok t tile \<and> fits (nrows ?z) (ncols ?z) t k"
    using assms(2) by simp
  obtain out where out: "stitch_loop astype (int t) tiles ?z = Inr out" "valid2 out"
      "nrows out = h" "ncols out = w"
    and cell: "\<And>r c. r < h \<Longrightarrow> c < w \<Longrightarrow>
       cells out ! r ! c = (case last_cover t tiles r c of Some v \<Rightarrow> astype v | None \<Rightarrow> cells ?z ! r ! c)"
    using stitch_loop_fit [OF v f, of astype] by auto
  have "cells out ! r ! c = (case last_cover t tiles r c of Some v \<Rightarrow> astype v | None \<Rightarrow> 0)"
    if "r < h" "c < w" for r c
    using cell [OF that] that by (simp split: option.splits)
  then show ?thesis
    using out unfolding jahit_tiles_unfold [OF assms(1) ok] by blast
qed

lemma tile_block_cell:
  assumes "fits h w t k" "a < t" "b < t"
  shows "nat (fst k) + a < h" "nat (snd k) + b < w"
    "covers t k (nat (fst k) + a) (nat (snd k) + b)"
    "tile_value k tile (nat (fst k) + a) (nat (snd k) + b) = elems tile ! a ! b ! 0"
  using assms by (auto simp: fits_def covers_def tile_value_def)

lemma cut_tiles_ok:
  assumes "valid3 img" "0 < t" "0 < dim2 img" "cut_into_tiles img t = Inr tiles"
  shows "\<forall>(k, tile) \<in> set tiles. tile_ok (nat t) tile \<and> fits (dim0 img) (dim1 img) (nat t) k"
proof (intro ballI, clarify)
  fix r c tile assume m: "((r, c), tile) \<in> set tiles"
  have g: "0 \<le> r" "r + t \<le> int (dim0 img)" "0 \<le> c" "c + t \<le> int (dim1 img)"
    and eq: "tile = getslice2 img r (r + t) c (c + t)"
    using m cut_into_tiles_mem [OF assms(2,4)] by auto
  have "slice_bounds (dim0 img) r (r + t) = (nat r, nat t)"
    using g assms(2) by (auto simp: slice_bounds_window min_def)
  moreover have "slice_bounds (dim1 img) c (c + t) = (nat c, nat t)"
    using g assms(2) by (auto simp: slice_bounds_window min_def)
  ultimately have "dim0 tile = nat t" "dim1 tile = nat t" "dim2 tile = dim2 img"
    unfolding eq by (simp_all add: getslice2_dims)
  moreover have "valid3 tile" unfolding eq by (rule getslice2_valid [OF assms(1)])
  ultimately have "tile_ok (nat t) tile" using assms(3) by (simp add: tile_ok_def)
  moreover have "fits (dim0 img) (dim1 img) (nat t) (r, c)"
    using g assms(2) by (simp add: fits_def)
  ultimately show "tile_ok (nat t) tile \<and> fits (dim0 img) (dim1 img) (nat t) (r, c)" ..
qed

lemma grid_cover:
  assumes "0 < T" "r < (n div T) * T"
  shows "r div T < n div T" "int (r div T * T) \<le> int r" "int r < int (r div T * T) + int T"
    "r div T * T \<le> r" "r < r div T * T + T"
proof -
  show "r div T < n div T" using assms by (simp add: div_less_iff_less_mult)
  have "r div T * T \<le> r" by simp
  then show "int (r div T * T) \<le> int r" by linarith
  have "r < r div T * T + T" using assms(1)
    by (metis add.commute div_mult_mod_eq add_less_cancel_left mod_less_divisor)
  then show "int r < int (r div T * T) + int T" by linarith
  show "r div T * T \<le> r" by simp
  show "r < r div T * T + T" by fact
qed

lemma grid_cover_unique:
  assumes "0 < T" "int (a * T) \<le> int r" "int r < int (a * T) + int T"
  shows "a = r div T"
proof -
  have "a * T \<le> r" using assms(2) by linarith
  moreover have "r < a * T + T" using assms(3) by linarith
  ultimately have "T * a \<le> r" "r < T * Suc a" by (simp_all add: mult.commute)
  then show ?thesis using div_nat_eqI by metis
qed

lemma roundtrip_cells:
  fixes img :: "'a ndarray3" and astype :: "'a \<Rightarrow> 'f::zero"
  assumes "valid3 img" "0 < t" "0 < dim2 img" "nat t \<le> dim0 img" "nat t \<le> dim1 img"
  shows "\<exists>tiles out. cut_into_tiles img t = Inr tiles \<and>
           jahit_tiles astype tiles (dim0 img # dim1 img # rest) = Inr out \<and> valid2 out \<and>
           nrows out = dim0 img \<and> ncols out = dim1 img \<and>
           (\<forall>r < dim0 img. \<forall>c < dim1 img.
              cells out ! r ! c =
                (if r < (dim0 img div nat t) * nat t \<and> c < (dim1 img div nat t) * nat t
                 then astype (elems img ! r ! c ! 0) else 0))"
proof -
  define T where "T = nat t"
  have T: "0 < T" "int T = t" using assms(2) by (simp_all add: T_def)
  obtain tiles where tiles: "cut_into_tiles img t = Inr tiles"
    using cut_into_tiles_closed [OF assms(2)] by blast
  note mem = cut_into_tiles_mem [OF assms(2) tiles]
  have ok: "\<forall>(k, tile) \<in> set tiles. tile_ok T tile \<and> fits (dim0 img) (dim1 img) T k"
    unfolding T_def by (rule cut_tiles_ok [OF assms(1,2,3) tiles])
  have "((0, 0), getslice2 img 0 (0 + t) 0 (0 + t)) \<in> set tiles"
    unfolding mem using assms(2,4,5) by (simp add: nat_le_iff)
  then have ne: "tiles \<noteq> []" by auto
  obtain out where out: "jahit_tiles astype tiles (dim0 img # dim1 img # rest) = Inr out" "valid2 out"
      "nrows out = dim0 img" "ncols out = dim1 img"
    and cell: "\<And>r c. r < dim0 img \<Longrightarrow> c < dim1 img \<Longrightarrow>
       cells out ! r ! c = (case last_cover T tiles r c of Some v \<Rightarrow> astype v | None \<Rightarrow> 0)"
    using jahit_tiles_fit [OF ne ok, of astype rest] by blast
  have keys: "k \<in> set (dict_keys tiles) \<longleftrightarrow>
       (\<exists>a b. a < dim0 img div T \<and> b < dim1 img div T \<and> k = (int a * t, int b * t))" for k
    unfolding cut_into_tiles_keys [OF assms(2) tiles] T_def by auto
  have dist: "distinct (dict_keys tiles)" by (rule cut_into_tiles_distinct [OF assms(2) tiles])
  have "cells out ! r ! c =
          (if r < (dim0 img div T) * T \<and> c < (dim1 img div T) * T then astype (elems img ! r ! c ! 0) else 0)"
    if rc: "r < dim0 img" "c < dim1 img" for r c
  proof (cases "r < (dim0 img div T) * T \<and> c < (dim1 img div T) * T")
    case True
    let ?a = "r div T" and ?b = "c div T"
    let ?k = "(int ?a * t, int ?b * t)"
    let ?tile = "getslice2 img (fst ?k) (fst ?k + t) (snd ?k) (snd ?k + t)"
    note gr = grid_cover [OF T(1) conjunct1 [OF True]]
    note gc = grid_cover [OF T(1) conjunct2 [OF True]]
    have kr: "0 \<le> fst ?k \<and> t dvd fst ?k \<and> fst ?k + t \<le> int (dim0 img)"
      unfolding grid_offsets [OF assms(2)] using gr(1) by (auto simp: T_def)
    have kc: "0 \<le> snd ?k \<and> t dvd snd ?k \<and> snd ?k + t \<le> int (dim1 img)"
      unfolding grid_offsets [OF assms(2)] using gc(1) by (auto simp: T_def)
    have m: "(?k, ?tile) \<in> set tiles" unfolding mem using kr kc by simp
    have cov: "covers T ?k r c" using gr gc T by (simp add: covers_def)
    have uniq: "\<forall>k' \<in> set (dict_keys tiles). k' \<noteq> ?k \<longrightarrow> \<not> covers T k' r c"
    proof (intro ballI impI notI)
      fix k' assume k': "k' \<in> set (dict_keys tiles)" "k' \<noteq> ?k" "covers T k' r c"
      obtain a b where ab: "k' = (int a * t, int b * t)" using k'(1) keys by blast
      have "a = r div T" using k'(3) T by (intro grid_cover_unique) (auto simp: ab covers_def)
      moreover have "b = c div T" using k'(3) T by (intro grid_cover_unique) (auto simp: ab covers_def)
      ultimately show False using k'(2) ab by simp
    qed
    have lc: "last_cover T tiles r c = Some (tile_value ?k ?tile r c)"
      by (rule last_cover_unique [OF dist m cov uniq])
    have nk: "nat (fst ?k) = r div T * T" "nat (snd ?k) = c div T * T"
      by (simp_all add: nat_mult_distrib T_def)
    have ra: "nat (fst ?k) + (r - nat (fst ?k)) = r" "r - nat (fst ?k) < nat t"
      unfolding nk T_def [symmetric] using gr(4,5) by linarith+
    have ca: "nat (snd ?k) + (c - nat (snd ?k)) = c" "c - nat (snd ?k) < nat t"
      unfolding nk T_def [symmetric] using gc(4,5) by linarith+
    have "tile_value ?k ?tile r c =
        elems img ! (nat (fst ?k) + (r - nat (fst ?k))) ! (nat (snd ?k) + (c - nat (snd ?k))) ! 0"
      unfolding tile_value_def
      using getslice2_elems [OF assms(1) _ _ _ _ ra(2) ca(2), of "fst ?k" "snd ?k"] kr kc
      by simp
    then have "tile_value ?k ?tile r c = elems img ! r ! c ! 0" unfolding ra ca .
    then show ?thesis using cell [OF rc] lc True by simp
  next
    case False
    have "\<forall>k \<in> set (dict_keys tiles). \<not> covers T k r c"
    proof (intro ballI notI)
      fix k assume k: "k \<in> set (dict_keys tiles)" "covers T k r c"
      obtain a b where ab: "a < dim0 img div T" "b < dim1 img div T" "k = (int a * t, int b * t)"
        using k(1) keys by blast
      have "a = r div T" using k(2) T by (intro grid_cover_unique) (auto simp: ab covers_def)
      moreover have "b = c div T" using k(2) T by (intro grid_cover_unique) (auto simp: ab covers_def)
      ultimately have "r div T < dim0 img div T" "c div T < dim1 img div T" using ab by auto
      then have "r < (dim0 img div T) * T \<and> c < (dim1 img div T) * T"
        using T(1) by (simp add: div_less_iff_less_mult)
      then show False using False by simp
    qed
    then have "last_cover T tiles r c = None" by (rule last_cover_none)
    then have "cells out ! r ! c = 0" using cell [OF rc] by simp
    then show ?thesis by (simp only: if_not_P [OF False])
  qed
  then show ?thesis using tiles out unfolding T_def by blast
qed

lemma keep_448:
  "keep raster_448 224 0 0" "keep raster_448 224 0 224"
  "keep raster_448 224 224 0" "keep raster_448 224 224 224"
  by (simp_all add: keep_iff raster_448_def)

section \<open>Properties of the DatasetSplitter\<close>

lemma is_permutation_facts:
  assumes "is_permutation perm n"
  shows "length perm = n" "distinct perm" "set perm = {..<n}"
proof -
  have s: "sort perm = [0..<n]" using assms by (simp add: is_permutation_def)
  have "length (sort perm) = n" unfolding s by simp
  then show "length perm = n" by simp
  have "distinct (sort perm)" unfolding s by simp
  then show "distinct perm" by simp
  have "set (sort perm) = {..<n}" unfolding s by auto
  then show "set perm = {..<n}" by simp
qed

lemma train_test_split_ok:
  assumes "is_permutation perm (length xs)" "2 \<le> length xs"
  shows "\<exists>train test. train_test_split perm xs = Inr (train, test) \<and>
           length test = (length xs + 4) div 5 \<and>
           length train + length test = length xs \<and>
           set train \<union> set test = set xs \<and>
           (distinct xs \<longrightarrow> distinct (test @ train))"
proof -
  define n where "n = length xs"
  define n_test where "n_test = (n + 4) div 5"
  define n_train where "n_train = n - n_test"
  note pf = is_permutation_facts [OF assms(1), folded n_def]
  have nt: "n_test < n" using assms(2) unfolding n_test_def n_def by linarith
  then have ntr: "n_train \<noteq> 0" "n_train + n_test = n" unfolding n_train_def by auto
  define train where "train = map (\<lambda>i. xs ! i) (take n_train (drop n_test perm))"
  define test where "test = map (\<lambda>i. xs ! i) (take n_test perm)"
  have res: "train_test_split perm xs = Inr (train, test)"
    unfolding train_test_split_def Let_def n_def [symmetric]
        n_test_def [symmetric] n_train_def [symmetric] train_def test_def
    by (simp only: ntr(1) if_False)
  have "take n_train (drop n_test perm) = drop n_test perm"
    using pf(1) ntr(2) by simp
  then have cat: "test @ train = map (\<lambda>i. xs ! i) perm"
    unfolding train_def test_def by (simp flip: map_append)
  have "set (test @ train) = (\<lambda>i. xs ! i) ` {..<n}" unfolding cat using pf(3) by simp
  also have "\<dots> = set xs" unfolding n_def by (auto simp: set_conv_nth)
  finally have su: "set train \<union> set test = set xs" by auto
  have "length (test @ train) = n" unfolding cat using pf(1) by simp
  then have len: "length train + length test = n" by simp
  have lt: "length test = n_test" unfolding test_def using pf(1) nt by simp
  have dist: "distinct (test @ train)" if dx: "distinct xs"
  proof -
    have "inj_on (nth xs) (set perm)"
      using dx pf(3) by (intro inj_on_nth) (simp_all add: n_def)
    then show ?thesis unfolding cat using pf(2) by (simp add: distinct_map)
  qed
  show ?thesis using res su len lt dist unfolding n_def n_test_def by blast
qed

lemma train_test_split_small:
  assumes "length xs \<le> 1"
  shows "train_test_split perm xs = Inl (ValueError EmptyTrainSet)"
proof -
  have "length xs - (length xs + 4) div 5 = 0" using assms by linarith
  then show ?thesis by (simp add: train_test_split_def Let_def)
qed

lemma gather_Inr:
  "gather d ks = Inr vs \<Longrightarrow>
     length vs = length ks \<and> (\<forall>i < length ks. dict_get d (ks ! i) = Inr (vs ! i))"
proof (induction ks arbitrary: vs)
  case Nil
  then show ?case by simp
next
  case (Cons k ks)
  from Cons.prems obtain v rest where v: "dict_get d k = Inr v" "gather d ks = Inr rest" "vs = v # rest"
    by (auto split: sum.splits)
  have ih: "length rest = length ks" "\<And>i. i < length ks \<Longrightarrow> dict_get d (ks ! i) = Inr (rest ! i)"
    using Cons.IH [OF v(2)] by auto
  show ?case unfolding v(3) using v(1) ih by (auto simp: nth_Cons')
qed

lemma gather_Inl:
  "gather d ks = Inl e \<Longrightarrow> \<exists>k \<in> set ks. e = KeyError k \<and> k \<notin> set (dict_keys d)"
proof (induction ks)
  case Nil
  then show ?case by simp
next
  case (Cons k ks)
  show ?case
  proof (cases "dict_get d k")
    case (Inl e')
    then have "e' = KeyError k \<and> map_of d k = None"
      by (auto simp: dict_get_def split: option.splits)
    then have "e' = KeyError k" "k \<notin> set (dict_keys d)"
      by (auto simp: dict_keys_def map_of_eq_None_iff)
    then show ?thesis using Cons.prems Inl by simp
  next
    case (Inr v)
    then have "gather d ks = Inl e" using Cons.prems by (auto split: sum.splits)
    then show ?thesis using Cons.IH by auto
  qed
qed

lemma gather_total:
  "set ks \<subseteq> set (dict_keys d) \<Longrightarrow> \<exists>vs. gather d ks = Inr vs"
proof (induction ks)
  case Nil
  then show ?case by simp
next
  case (Cons k ks)
  have "k \<in> set (dict_keys d)" using Cons.prems by simp
  then have "map_of d k \<noteq> None" by (simp add: dict_keys_def map_of_eq_None_iff)
  then obtain v where "map_of d k = Some v" by blast
  then have "dict_get d k = Inr v" by (simp add: dict_get_def)
  moreover obtain vs where "gather d ks = Inr vs" using Cons by auto
  ultimately show ?case by simp
qed

lemma gather_missing:
  assumes "\<not> set ks \<subseteq> set (dict_keys d)"
  shows "\<exists>k \<in> set ks. gather d ks = Inl (KeyError k) \<and> k \<notin> set (dict_keys d)"
proof (cases "gather d ks")
  case (Inl e)
  then show ?thesis using gather_Inl [OF Inl] by auto
next
  case (Inr vs)
  have "k \<in> set (dict_keys d)" if kin: "k \<in> set ks" for k
  proof -
    obtain i where i: "i < length ks" "ks ! i = k" using kin by (auto simp: in_set_conv_nth)
    then have "dict_get d k = Inr (vs ! i)" using gather_Inr [OF Inr] by auto
    then have "map_of d k \<noteq> None" by (auto simp: dict_get_def split: option.splits)
    then show ?thesis by (simp add: dict_keys_def map_of_eq_None_iff)
  qed
  then show ?thesis using assms by auto
qed

lemma ceil_fifth: "\<lceil>real n / 5\<rceil> = int ((n + 4) div 5)"
proof -
  have "\<lceil>real n / 5\<rceil> = \<lceil>of_int (int n) / (of_int 5 :: real)\<rceil>" by simp
  also have "\<dots> = - (- int n div 5)" by (rule ceiling_divide_eq_div)
  also have "\<dots> = (int n + 4) div 5" by presburger
  also have "\<dots> = int ((n + 4) div 5)" by (simp add: zdiv_int)
  finally show ?thesis .
qed

lemma round_fifth: "round (real n / 5) = (2 * int n + 5) div 10"
proof -
  have eq: "real n / 5 + 1 / 2 = of_int (2 * int n + 5) / (of_int 10 :: real)" by simp
  have "round (real n / 5) = \<lfloor>of_int (2 * int n + 5) / (of_int 10 :: real)\<rfloor>"
    unfolding round_def eq ..
  also have "\<dots> = (2 * int n + 5) div 10" by (rule floor_divide_of_int_eq)
  finally show ?thesis .
qed

lemma test_size_round: "\<bar>int ((n + 4) div 5) - round (real n / 5)\<bar> \<le> 1"
  unfolding round_fifth by (simp add: zdiv_int)

lemma split_tiles_Inr:
  assumes "split_tiles perm sat veg = Inr (train, test, sat_train, veg_train, sat_test, veg_test)"
  shows "train_test_split perm (dict_keys sat) = Inr (train, test)"
    "gather sat train = Inr sat_train" "gather veg train = Inr veg_train"
    "gather sat test = Inr sat_test" "gather veg test = Inr veg_test"
  using assms by (auto simp: split_tiles_def Let_def split: sum.splits prod.splits)

section \<open>Properties of the SegmentationModel\<close>













text \<open>
  The network run on two inputs that it rejects: a 6 by 8 patch (6 is not a multiple of
  4: the first concatenation meets the heights 2 and 3) and a patch of 3 channels.
\<close>

lemma uncompiled_unet_patch_6x8:
  "uncompiled_unet nan_runtime zero_unet (patch 6 8) = Inl (ValueError ShapeMismatch)"
  by (simp add: uncompiled_unet_def conv2d_def max_pooling2d_def up_sampling2d_def concatenate_def
      patch_def Let_def)

lemma uncompiled_unet_three_channels:
  "uncompiled_unet nan_runtime zero_unet (patch 4 8\<lparr>tc := 3\<rparr>) = Inl (ValueError ShapeMismatch)"
  by (simp add: uncompiled_unet_def conv2d_def patch_def Let_def)

section \<open>Claims about the Tiler\<close>

text \<open>
  Claim C1. For a raster of shape (H, W, C) and a positive tile size T, \<open>cut_into_tiles\<close>
  returns a dictionary whose keys are distinct and are exactly the offsets
  \<open>(a * T, b * T)\<close> with \<open>a < H div T\<close> and \<open>b < W div T\<close>, so it holds
  \<open>(H div T) * (W div T)\<close> tiles and no offset whose patch the raster boundary would
  truncate. Every tile has shape (T, T, C) and is the slice
  \<open>[row : row + T, col : col + T, :]\<close> of the raster: its pixel \<open>(a, b)\<close> is the
  raster's pixel \<open>(row + a, col + b)\<close>, all bands.
\<close>

theorem cut_into_tiles_grid:
  assumes "valid3 img" and "0 < t"
  shows "\<exists>tiles. cut_into_tiles img t = Inr tiles \<and>
     distinct (dict_keys tiles) \<and>
     set (dict_keys tiles) =
       {(int a * t, int b * t) | a b. a < dim0 img div nat t \<and> b < dim1 img div nat t} \<and>
     length tiles = (dim0 img div nat t) * (dim1 img div nat t) \<and>
     (\<forall>r c tile. ((r, c), tile) \<in> set tiles \<longrightarrow>
        valid3 tile \<and> dim0 tile = nat t \<and> dim1 tile = nat t \<and> dim2 tile = dim2 img \<and>
        tile = getslice2 img r (r + t) c (c + t) \<and>
        (\<forall>a < nat t. \<forall>b < nat t. elems tile ! a ! b = elems img ! (nat r + a) ! (nat c + b)))"
proof -
  obtain tiles where tiles: "cut_into_tiles img t = Inr tiles"
    using cut_into_tiles_closed [OF assms(2)] by blast
  have "valid3 tile \<and> dim0 tile = nat t \<and> dim1 tile = nat t \<and> dim2 tile = dim2 img \<and>
        tile = getslice2 img r (r + t) c (c + t) \<and>
        (\<forall>a < nat t. \<forall>b < nat t. elems tile ! a ! b = elems img ! (nat r + a) ! (nat c + b))"
    if "((r, c), tile) \<in> set tiles" for r c tile
  proof -
    have m: "0 \<le> r" "r + t \<le> int (dim0 img)" "0 \<le> c" "c + t \<le> int (dim1 img)"
      and eq: "tile = getslice2 img r (r + t) c (c + t)"
      using that cut_into_tiles_mem [OF assms(2) tiles] by auto
    have "slice_bounds (dim0 img) r (r + t) = (nat r, nat t)"
      using m assms(2) by (auto simp: slice_bounds_window min_def)
    moreover have "slice_bounds (dim1 img) c (c + t) = (nat c, nat t)"
      using m assms(2) by (auto simp: slice_bounds_window min_def)
    ultimately have "dim0 tile = nat t" "dim1 tile = nat t" "dim2 tile = dim2 img"
      unfolding eq by (simp_all add: getslice2_dims)
    moreover have "valid3 tile" unfolding eq by (rule getslice2_valid [OF assms(1)])
    moreover have "elems tile ! a ! b = elems img ! (nat r + a) ! (nat c + b)"
      if "a < nat t" "b < nat t" for a b
      unfolding eq using getslice2_elems [OF assms(1) m that] .
    ultimately show ?thesis using eq by blast
  qed
  then show ?thesis
    using tiles cut_into_tiles_distinct [OF assms(2) tiles]
      cut_into_tiles_keys [OF assms(2) tiles] cut_into_tiles_length [OF assms(2) tiles]
    by blast
qed

text \<open>
  The theorem at the 3 by 5 raster with tile size 2: one row of two tiles, the third
  row and the fifth column dropped.
\<close>

theorem cut_into_tiles_grid_witness:
  "valid3 raster_3x5 \<and> (0::int) < 2 \<and>
   cut_into_tiles raster_3x5 2 =
     Inr [((0, 0), \<lparr>dim0 = 2, dim1 = 2, dim2 = 1, elems = [[[10], [11]], [[20], [21]]]\<rparr>),
          ((0, 2), \<lparr>dim0 = 2, dim1 = 2, dim2 = 1, elems = [[[12], [13]], [[22], [23]]]\<rparr>)] \<and>
   (\<exists>tiles. cut_into_tiles raster_3x5 2 = Inr tiles \<and>
     distinct (dict_keys tiles) \<and>
     set (dict_keys tiles) =
       {(int a * 2, int b * 2) | a b. a < dim0 raster_3x5 div nat 2 \<and> b < dim1 raster_3x5 div nat 2} \<and>
     length tiles = (dim0 raster_3x5 div nat 2) * (dim1 raster_3x5 div nat 2) \<and>
     (\<forall>r c tile. ((r, c), tile) \<in> set tiles \<longrightarrow>
        valid3 tile \<and> dim0 tile = nat 2 \<and> dim1 tile = nat 2 \<and> dim2 tile = dim2 raster_3x5 \<and>
        tile = getslice2 raster_3x5 r (r + 2) c (c + 2) \<and>
        (\<forall>a < nat 2. \<forall>b < nat 2.
           elems tile ! a ! b = elems raster_3x5 ! (nat r + a) ! (nat c + b))))"
proof -
  have v: "valid3 raster_3x5" by (simp add: valid3_def raster_3x5_def)
  have p: "(0::int) < 2" by simp
  have e: "cut_into_tiles raster_3x5 2 =
     Inr [((0, 0), \<lparr>dim0 = 2, dim1 = 2, dim2 = 1, elems = [[[10], [11]], [[20], [21]]]\<rparr>),
          ((0, 2), \<lparr>dim0 = 2, dim1 = 2, dim2 = 1, elems = [[[12], [13]], [[22], [23]]]\<rparr>)]"
    by (simp add: raster_3x5_def cut_into_tiles_def range3_def py_range.simps getslice2_def
        slice_bounds_def slice_index_def Let_def)
  show ?thesis
    by (intro conjI) (rule v, rule p, rule e, rule cut_into_tiles_grid [OF v p])
qed

section \<open>Claims about tiling and stitching together\<close>

text \<open>
  Claim C2, as stated, at two rasters. At a raster of height 0 (0 is a multiple of every
  tile size) the Tiler returns no tile and the Stitcher raises \<open>StopIteration\<close>
  instead of returning the (empty) content. At a 64-bit integer raster of one pixel
  holding \<open>2^53 + 1\<close> with tile size 1, the stitched float64 array holds \<open>2^53\<close>:
  the assignment into the float64 array rounds the value.
\<close>

theorem tile_stitch_roundtrip_counterexample:
  "valid3 raster_empty \<and> (0::int) < 2 \<and> 0 < dim2 raster_empty \<and>
   nat 2 dvd dim0 raster_empty \<and> nat 2 dvd dim1 raster_empty \<and>
   cut_into_tiles raster_empty 2 = Inr [] \<and>
   jahit_tiles float64_of_int ([] :: (key, int ndarray3) dict) [dim0 raster_empty, dim1 raster_empty]
     = Inl StopIteration \<and>
   valid3 raster_big \<and> (0::int) < 1 \<and> 0 < dim2 raster_big \<and>
   nat 1 dvd dim0 raster_big \<and> nat 1 dvd dim1 raster_big \<and>
   cut_into_tiles raster_big 1 = Inr [((0, 0), raster_big)] \<and>
   jahit_tiles float64_of_int [((0, 0), raster_big)] [dim0 raster_big, dim1 raster_big]
     = Inr \<lparr>nrows = 1, ncols = 1, cells = [[9007199254740992]]\<rparr> \<and>
   (9007199254740992 :: real) \<noteq> of_int (elems raster_big ! 0 ! 0 ! 0)"
proof -
  have a: "valid3 raster_empty \<and> (0::int) < 2 \<and> 0 < dim2 raster_empty \<and>
     nat 2 dvd dim0 raster_empty \<and> nat 2 dvd dim1 raster_empty \<and>
     cut_into_tiles raster_empty 2 = Inr [] \<and>
     jahit_tiles float64_of_int ([] :: (key, int ndarray3) dict) [dim0 raster_empty, dim1 raster_empty]
       = Inl StopIteration"
    by (simp add: raster_empty_def valid3_def cut_into_tiles_def range3_def py_range.simps
        jahit_tiles_def)
  have b: "valid3 raster_big \<and> (0::int) < 1 \<and> 0 < dim2 raster_big \<and>
     nat 1 dvd dim0 raster_big \<and> nat 1 dvd dim1 raster_big"
    by (simp add: raster_big_def valid3_def)
  have c: "cut_into_tiles raster_big 1 = Inr [((0, 0), raster_big)]"
    by (simp add: raster_big_def cut_into_tiles_def range3_def py_range.simps getslice2_def
        slice_bounds_def slice_index_def Let_def)
  have d: "jahit_tiles float64_of_int [((0, 0), raster_big)] [dim0 raster_big, dim1 raster_big]
     = Inr \<lparr>nrows = 1, ncols = 1, cells = [[9007199254740992]]\<rparr>"
    by code_simp
  have e: "(9007199254740992 :: real) \<noteq> of_int (elems raster_big ! 0 ! 0 ! 0)"
    by (simp add: raster_big_def)
  show ?thesis using a b c d e by blast
qed

text \<open>
  Claim C2, amended. For a raster with at least one band whose height and width are
  positive multiples of the tile size T, \<open>cut_into_tiles\<close> returns the
  \<open>(H div T) * (W div T)\<close> tiles of the grid, and \<open>jahit_tiles\<close> on them with the
  raster's height and width (followed by anything) returns the H by W float64 array
  that holds, at every pixel, the value of the raster's first band converted to
  float64: the band itself wherever the conversion is exact.
\<close>

theorem tile_stitch_roundtrip:
  fixes img :: "'a ndarray3" and astype :: "'a \<Rightarrow> 'f::zero"
  assumes "valid3 img" and "0 < t" and "0 < dim2 img"
    and "0 < dim0 img" and "0 < dim1 img"
    and "nat t dvd dim0 img" and "nat t dvd dim1 img"
  shows "\<exists>tiles out. cut_into_tiles img t = Inr tiles \<and>
           set (dict_keys tiles) =
             {(int a * t, int b * t) | a b. a < dim0 img div nat t \<and> b < dim1 img div nat t} \<and>
           length tiles = (dim0 img div nat t) * (dim1 img div nat t) \<and>
           jahit_tiles astype tiles (dim0 img # dim1 img # rest) = Inr out \<and>
           nrows out = dim0 img \<and> ncols out = dim1 img \<and>
           cells out = map (map (\<lambda>p. astype (p ! 0))) (elems img)"
proof -
  have le: "nat t \<le> dim0 img" "nat t \<le> dim1 img"
    using assms(4-7) by (auto intro: dvd_imp_le)
  have full: "(dim0 img div nat t) * nat t = dim0 img" "(dim1 img div nat t) * nat t = dim1 img"
    using assms(6,7) by simp_all
  obtain tiles out where tiles: "cut_into_tiles img t = Inr tiles"
    and out: "jahit_tiles astype tiles (dim0 img # dim1 img # rest) = Inr out" "valid2 out"
      "nrows out = dim0 img" "ncols out = dim1 img"
    and cell: "\<And>r c. r < dim0 img \<Longrightarrow> c < dim1 img \<Longrightarrow> cells out ! r ! c = astype (elems img ! r ! c ! 0)"
    using roundtrip_cells [OF assms(1,2,3) le, of astype rest] unfolding full by auto
  have len: "length (cells out) = dim0 img" "length (elems img) = dim0 img"
    using out(2,3) assms(1) by (simp_all add: valid2_def valid3_def)
  have "cells out ! r = map (\<lambda>p. astype (p ! 0)) (elems img ! r)" if r: "r < dim0 img" for r
  proof (rule nth_equalityI)
    have "cells out ! r \<in> set (cells out)" "elems img ! r \<in> set (elems img)"
      using r len by simp_all
    then have l: "length (cells out ! r) = dim1 img" "length (elems img ! r) = dim1 img"
      using out(2,4) assms(1) by (simp_all add: valid2_def valid3_def)
    then show "length (cells out ! r) = length (map (\<lambda>p. astype (p ! 0)) (elems img ! r))" by simp
    show "cells out ! r ! c = map (\<lambda>p. astype (p ! 0)) (elems img ! r) ! c" if "c < length (cells out ! r)" for c
      using that l cell [OF r, of c] by simp
  qed
  then have "cells out = map (map (\<lambda>p. astype (p ! 0))) (elems img)"
    using len by (intro nth_equalityI) simp_all
  then show ?thesis
    using tiles out cut_into_tiles_keys [OF assms(2) tiles] cut_into_tiles_length [OF assms(2) tiles]
    by blast
qed

text \<open>
  The theorem at a 448 by 448 integer raster of one band with tile size 224: four
  tiles, at the keys (0, 0), (0, 224), (224, 0) and (224, 224), and the stitched array
  is the raster's band, its values being small enough to convert exactly.
\<close>

theorem tile_stitch_roundtrip_witness:
  "valid3 raster_448 \<and> (0::int) < 224 \<and> 0 < dim2 raster_448 \<and>
   0 < dim0 raster_448 \<and> 0 < dim1 raster_448 \<and>
   nat 224 dvd dim0 raster_448 \<and> nat 224 dvd dim1 raster_448 \<and>
   (\<exists>tiles out. cut_into_tiles raster_448 224 = Inr tiles \<and>
      dict_keys tiles = [(0, 0), (0, 224), (224, 0), (224, 224)] \<and>
      length tiles = 4 \<and>
      jahit_tiles float64_of_int tiles [448, 448] = Inr out \<and>
      nrows out = 448 \<and> ncols out = 448 \<and>
      cells out = map (map (\<lambda>p. float64_of_int (p ! 0))) (elems raster_448) \<and>
      cells out = map (map (\<lambda>p. of_int (p ! 0))) (elems raster_448))"
proof -
  have v: "valid3 raster_448" by (simp add: valid3_def raster_448_def)
  have p: "(0::int) < 224" by simp
  have b: "0 < dim2 raster_448" "0 < dim0 raster_448" "0 < dim1 raster_448"
    by (simp_all add: raster_448_def)
  have d: "nat 224 dvd dim0 raster_448" "nat 224 dvd dim1 raster_448"
    by (simp_all add: raster_448_def)
  have r: "py_range 0 (int (dim0 raster_448)) 224 = [0, 224]"
          "py_range 0 (int (dim1 raster_448)) 224 = [0, 224]"
    by (simp_all add: raster_448_def py_range.simps)
  have k: "\<And>tiles. cut_into_tiles raster_448 224 = Inr tiles
      \<Longrightarrow> dict_keys tiles = [(0, 0), (0, 224), (224, 0), (224, 224)]"
    unfolding cut_into_tiles_closed [OF p] r by (auto simp: keep_448 dict_keys_def)
  have s: "[dim0 raster_448, dim1 raster_448] = [448, 448]" by (simp add: raster_448_def)
  obtain tiles out where "cut_into_tiles raster_448 224 = Inr tiles"
      "length tiles = (dim0 raster_448 div nat 224) * (dim1 raster_448 div nat 224)"
      "jahit_tiles float64_of_int tiles [dim0 raster_448, dim1 raster_448] = Inr out"
      "nrows out = dim0 raster_448" "ncols out = dim1 raster_448"
      "cells out = map (map (\<lambda>p. float64_of_int (p ! 0))) (elems raster_448)"
    using tile_stitch_roundtrip [OF v p b d, of float64_of_int "[]"] by blast
  moreover have x: "map (map (\<lambda>p. float64_of_int (p ! 0))) (elems raster_448) =
      map (map (\<lambda>p. of_int (p ! 0))) (elems raster_448)"
    unfolding raster_448_def by (simp add: float64_of_int_exact)
  ultimately have "cut_into_tiles raster_448 224 = Inr tiles \<and>
      dict_keys tiles = [(0, 0), (0, 224), (224, 0), (224, 224)] \<and>
      length tiles = 4 \<and>
      jahit_tiles float64_of_int tiles [448, 448] = Inr out \<and>
      nrows out = 448 \<and> ncols out = 448 \<and>
      cells out = map (map (\<lambda>p. float64_of_int (p ! 0))) (elems raster_448) \<and>
      cells out = map (map (\<lambda>p. of_int (p ! 0))) (elems raster_448)"
    using k [of tiles] unfolding s by (simp add: raster_448_def)
  then show ?thesis using v p b d by blast
qed

section \<open>Claims about the Stitcher\<close>

text \<open>
  Claim C3, as stated, at two inputs. Two 2 by 2 tiles with the keys (0, 0) and (0, 1) in
  a 2 by 3 output both fit and have one size, but they share a column, and the second
  copy overwrites it: the region of the key (0, 0) does not equal its tile. One 64-bit
  integer tile of one pixel holding \<open>2^53 + 1\<close> at the key (0, 0) of a 1 by 1 output
  comes back as \<open>2^53\<close>: the assignment into the float64 array rounds the value.
\<close>

theorem jahit_tiles_overlap_counterexample:
  "tile_ok 2 tile_ones \<and> tile_ok 2 tile_twos \<and> fits 2 3 2 (0, 0) \<and> fits 2 3 2 (0, 1) \<and>
   jahit_tiles float64_of_int [((0, 0), tile_ones), ((0, 1), tile_twos)] [2, 3] =
     Inr \<lparr>nrows = 2, ncols = 3, cells = [[1, 2, 2], [1, 2, 2]]\<rparr> \<and>
   cells \<lparr>nrows = 2, ncols = 3, cells = [[1, 2, 2], [1, 2, 2::real]]\<rparr> ! (0 + 0) ! (0 + 1)
     \<noteq> of_int (elems tile_ones ! 0 ! 1 ! 0) \<and>
   tile_ok 1 raster_big \<and> fits 1 1 1 (0, 0) \<and>
   jahit_tiles float64_of_int [((0, 0), raster_big)] [1, 1] =
     Inr \<lparr>nrows = 1, ncols = 1, cells = [[9007199254740992]]\<rparr> \<and>
   (9007199254740992 :: real) \<noteq> of_int (elems raster_big ! 0 ! 0 ! 0)"
proof -
  have a: "jahit_tiles float64_of_int [((0, 0), tile_ones), ((0, 1), tile_twos)] [2, 3] =
     Inr \<lparr>nrows = 2, ncols = 3, cells = [[1, 2, 2], [1, 2, 2]]\<rparr>"
    by code_simp
  have b: "jahit_tiles float64_of_int [((0, 0), raster_big)] [1, 1] =
     Inr \<lparr>nrows = 1, ncols = 1, cells = [[9007199254740992]]\<rparr>"
    by code_simp
  show ?thesis using a b
    by (simp add: tile_ok_def valid3_def fits_def tile_ones_def tile_twos_def raster_big_def)
qed

text \<open>
  Claim C3, amended. For a non-empty dictionary with distinct keys whose tiles all have
  \<open>t\<close> rows, \<open>t\<close> columns and at least one band, fit inside (height, width) and do
  not overlap one another, \<open>jahit_tiles\<close> returns a float64 array of shape
  (height, width), whatever follows height and width in the requested shape; the block
  of every key holds the first band of its tile converted to float64, and every cell
  that no block covers is 0.
\<close>

theorem jahit_tiles_disjoint:
  assumes "tiles \<noteq> []"
    and "\<forall>(k, tile) \<in> set tiles. tile_ok t tile \<and> fits h w t k"
    and "distinct (dict_keys tiles)"
    and "\<forall>k \<in> set (dict_keys tiles). \<forall>k' \<in> set (dict_keys tiles). k' \<noteq> k \<longrightarrow> \<not> overlap t k' k"
  shows "\<exists>out. jahit_tiles astype tiles (h # w # rest) = Inr out \<and> valid2 out \<and>
           nrows out = h \<and> ncols out = w \<and>
           (\<forall>(k, tile) \<in> set tiles. \<forall>a < t. \<forall>b < t.
              cells out ! (nat (fst k) + a) ! (nat (snd k) + b) = astype (elems tile ! a ! b ! 0)) \<and>
           (\<forall>r < h. \<forall>c < w.
              (\<forall>k \<in> set (dict_keys tiles). \<not> covers t k r c) \<longrightarrow> cells out ! r ! c = 0)"
proof -
  obtain out where out: "jahit_tiles astype tiles (h # w # rest) = Inr out" "valid2 out"
      "nrows out = h" "ncols out = w"
    and cell: "\<And>r c. r < h \<Longrightarrow> c < w \<Longrightarrow>
       cells out ! r ! c = (case last_cover t tiles r c of Some v \<Rightarrow> astype v | None \<Rightarrow> 0)"
    using jahit_tiles_fit [OF assms(1,2), of astype rest] by blast
  have block: "cells out ! (nat (fst k) + a) ! (nat (snd k) + b) = astype (elems tile ! a ! b ! 0)"
    if m: "(k, tile) \<in> set tiles" and ab: "a < t" "b < t" for k tile a b
  proof -
    have fit: "fits h w t k" using assms(2) m by auto
    note tb = tile_block_cell [OF fit ab]
    have kin: "k \<in> set (dict_keys tiles)" using m by (force simp: dict_keys_def)
    have "\<forall>k' \<in> set (dict_keys tiles). k' \<noteq> k \<longrightarrow>
             \<not> covers t k' (nat (fst k) + a) (nat (snd k) + b)"
      using assms(4) kin covers_overlap [OF _ tb(3)] by blast
    then have "last_cover t tiles (nat (fst k) + a) (nat (snd k) + b) =
           Some (tile_value k tile (nat (fst k) + a) (nat (snd k) + b))"
      using last_cover_unique [OF assms(3) m tb(3)] by blast
    then show ?thesis using cell [OF tb(1,2)] tb(4) [of tile] by simp
  qed
  have gap: "cells out ! r ! c = 0"
    if "r < h" "c < w" "\<forall>k \<in> set (dict_keys tiles). \<not> covers t k r c" for r c
    using cell [OF that(1,2)] last_cover_none [OF that(3)] by simp
  show ?thesis using out block gap by blast
qed

theorem jahit_tiles_disjoint_witness:
  "[((0::int, 0::int), tile_ones), ((0, 2), tile_twos)] \<noteq> [] \<and>
   tile_ok 2 tile_ones \<and> fits 2 5 2 (0, 0) \<and> tile_ok 2 tile_twos \<and> fits 2 5 2 (0, 2) \<and>
   distinct (dict_keys [((0::int, 0::int), tile_ones), ((0, 2), tile_twos)]) \<and>
   \<not> overlap 2 (0, 0) (0, 2) \<and> \<not> overlap 2 (0, 2) (0, 0) \<and>
   jahit_tiles float64_of_int [((0, 0), tile_ones), ((0, 2), tile_twos)] [2, 5, 1] =
     Inr \<lparr>nrows = 2, ncols = 5, cells = [[1, 1, 2, 2, 0], [1, 1, 2, 2, 0]]\<rparr> \<and>
   (\<exists>out. jahit_tiles float64_of_int [((0, 0), tile_ones), ((0, 2), tile_twos)] [2, 5, 1] = Inr out \<and> valid2 out \<and>
           nrows out = 2 \<and> ncols out = 5 \<and>
           (\<forall>(k, tile) \<in> set [((0, 0), tile_ones), ((0, 2), tile_twos)]. \<forall>a < 2. \<forall>b < 2.
              cells out ! (nat (fst k) + a) ! (nat (snd k) + b) = float64_of_int (elems tile ! a ! b ! 0)) \<and>
           (\<forall>r < 2. \<forall>c < 5.
              (\<forall>k \<in> set (dict_keys [((0, 0), tile_ones), ((0, 2), tile_twos)]). \<not> covers 2 k r c)
                \<longrightarrow> cells out ! r ! c = 0))"
proof -
  let ?tiles = "[((0::int, 0::int), tile_ones), ((0, 2), tile_twos)]"
  have ok: "tile_ok 2 tile_ones" "tile_ok 2 tile_twos"
    by (simp_all add: tile_ok_def valid3_def tile_ones_def tile_twos_def)
  have ft: "fits 2 5 2 (0, 0)" "fits 2 5 2 (0, 2)" by (simp_all add: fits_def)
  have ov: "\<not> overlap 2 (0, 0) (0, 2)" "\<not> overlap 2 (0, 2) (0, 0)" by (simp_all add: overlap_def)
  have d: "distinct (dict_keys ?tiles)" by (simp add: dict_keys_def)
  have ne: "?tiles \<noteq> []" by simp
  have a2: "\<forall>(k, tile) \<in> set ?tiles. tile_ok 2 tile \<and> fits 2 5 2 k" using ok ft by simp
  have a4: "\<forall>k \<in> set (dict_keys ?tiles). \<forall>k' \<in> set (dict_keys ?tiles). k' \<noteq> k \<longrightarrow> \<not> overlap 2 k' k"
    using ov by (simp add: dict_keys_def)
  have e: "jahit_tiles float64_of_int ?tiles [2, 5, 1] =
     Inr \<lparr>nrows = 2, ncols = 5, cells = [[1, 1, 2, 2, 0], [1, 1, 2, 2, 0]]\<rparr>"
    by code_simp
  show ?thesis
    using jahit_tiles_disjoint [OF ne a2 d a4, of float64_of_int "[1]"] ok ft ov d e by simp
qed

text \<open>
  Claim C7, as stated, at the empty dictionary and the shape (2, 2): the error is the
  \<open>StopIteration\<close> of reading the first element of an empty iterator, which is the
  fault of iterating an empty sequence and carries no description.
\<close>

theorem jahit_tiles_empty_counterexample:
  "jahit_tiles float64_of_int ([] :: (key, int ndarray3) dict) [2, 2] = Inl StopIteration"
  by (simp add: jahit_tiles_def)

text \<open>
  Claim C7, amended. For the empty dictionary and every requested shape,
  \<open>jahit_tiles\<close> returns no array: it raises \<open>StopIteration\<close>.
\<close>

theorem jahit_tiles_empty: "jahit_tiles astype [] output_shape = Inl StopIteration"
  by (simp add: jahit_tiles_def)

text \<open>
  Claim C9. When the raster's height or its width is smaller than the tile size,
  \<open>cut_into_tiles\<close> raises nothing and returns the empty dictionary, and
  \<open>jahit_tiles\<close> on that dictionary fails: taking the first value of an empty
  dictionary raises \<open>StopIteration\<close>.
\<close>

theorem cut_into_tiles_small:
  assumes "int (dim0 img) < t \<or> int (dim1 img) < t"
  shows "\<exists>tiles. cut_into_tiles img t = Inr tiles \<and> tiles = [] \<and>
           jahit_tiles astype tiles output_shape = Inl StopIteration"
proof -
  have t: "0 < t" using assms by linarith
  obtain tiles where tiles: "cut_into_tiles img t = Inr tiles"
    using cut_into_tiles_closed [OF t] by blast
  have "dim0 img div nat t = 0 \<or> dim1 img div nat t = 0" using assms by auto
  then have "length tiles = 0" using cut_into_tiles_length [OF t tiles] by auto
  then show ?thesis using tiles by (simp add: jahit_tiles_def)
qed

theorem cut_into_tiles_small_witness:
  "(int (dim0 raster_3x5) < 4 \<or> int (dim1 raster_3x5) < 4) \<and>
   cut_into_tiles raster_3x5 4 = Inr [] \<and>
   jahit_tiles float64_of_int ([] :: (key, int ndarray3) dict) [3, 5] = Inl StopIteration"
proof -
  have h: "int (dim0 raster_3x5) < 4 \<or> int (dim1 raster_3x5) < 4" by (simp add: raster_3x5_def)
  show ?thesis using cut_into_tiles_small [OF h, of float64_of_int "[3, 5]"] h by auto
qed

text \<open>
  Claim C10, as stated, at one tile of size 1 with the key (5, 0) in a 2 by 2 output:
  the key is out of range (5 + 1 > 2), the selected region is empty, numpy broadcasts
  the 1 by 1 tile to it, and the call returns the zero array with no error.
\<close>

theorem jahit_tiles_bounds_counterexample:
  "tile_ok 1 tile_pixel \<and> int 2 < 5 + int 1 \<and>
   jahit_tiles float64_of_int [((5, 0), tile_pixel)] [2, 2] =
     Inr \<lparr>nrows = 2, ncols = 2, cells = [[0, 0], [0, 0]]\<rparr>"
proof -
  have "jahit_tiles float64_of_int [((5, 0), tile_pixel)] [2, 2] =
     Inr \<lparr>nrows = 2, ncols = 2, cells = [[0, 0], [0, 0]]\<rparr>"
    by code_simp
  then show ?thesis by (simp add: tile_ok_def valid3_def tile_pixel_def)
qed

text \<open>
  Claim C10, amended. For a non-empty dictionary whose tiles all have \<open>t\<close> rows,
  \<open>t\<close> columns and at least one band: when \<open>t\<close> is at least 2 and some key has
  \<open>row + t > height\<close> or \<open>col + t > width\<close>, \<open>jahit_tiles\<close> raises the
  \<open>ValueError\<close> of a shape mismatch; when every key fits inside (height, width),
  \<open>jahit_tiles\<close> returns an array, the region selected for every key is its full
  \<open>t\<close> by \<open>t\<close> block, and the copy into any array of that shape succeeds and
  writes the whole first band of the tile there, converted to float64.
\<close>

theorem jahit_tiles_bounds:
  fixes astype :: "'a \<Rightarrow> 'f::zero"
  assumes "tiles \<noteq> []" and "\<forall>(k, tile) \<in> set tiles. tile_ok t tile"
  shows "(2 \<le> t \<and> (\<exists>(k, tile) \<in> set tiles. int h < fst k + int t \<or> int w < snd k + int t)
            \<longrightarrow> jahit_tiles astype tiles (h # w # rest) = Inl (ValueError BroadcastMismatch)) \<and>
         ((\<forall>(k, tile) \<in> set tiles. fits h w t k) \<longrightarrow>
            (\<exists>out. jahit_tiles astype tiles (h # w # rest) = Inr out) \<and>
            (\<forall>(k, tile) \<in> set tiles.
               slice_bounds h (fst k) (fst k + int t) = (nat (fst k), t) \<and>
               slice_bounds w (snd k) (snd k + int t) = (nat (snd k), t) \<and>
               (\<forall>dst. valid2 dst \<and> nrows dst = h \<and> ncols dst = w \<longrightarrow>
                  (\<exists>src dst'. channel0 tile = Inr src \<and>
                     setslice2 astype dst (fst k) (fst k + int t) (snd k) (snd k + int t) src = Inr dst' \<and>
                     (\<forall>a < t. \<forall>b < t.
                        cells dst' ! (nat (fst k) + a) ! (nat (snd k) + b) = astype (elems tile ! a ! b ! 0))))))"
proof (intro conjI impI)
  let ?z = "\<lparr>nrows = h, ncols = w, cells = replicate h (replicate w (0::'f))\<rparr>"
  assume a: "2 \<le> t \<and> (\<exists>(k, tile) \<in> set tiles. int h < fst k + int t \<or> int w < snd k + int t)"
  then have "\<exists>(k, tile) \<in> set tiles. int (nrows ?z) < fst k + int t \<or> int (ncols ?z) < snd k + int t"
    by simp
  then have "stitch_loop astype (int t) tiles ?z = Inl (ValueError BroadcastMismatch)"
    using a assms(2) by (intro stitch_loop_out) auto
  then show "jahit_tiles astype tiles (h # w # rest) = Inl (ValueError BroadcastMismatch)"
    unfolding jahit_tiles_unfold [OF assms] .
next
  assume f: "\<forall>(k, tile) \<in> set tiles. fits h w t k"
  then have "\<forall>(k, tile) \<in> set tiles. tile_ok t tile \<and> fits h w t k" using assms(2) by auto
  from jahit_tiles_fit [OF assms(1) this, of astype rest]
  show "\<exists>out. jahit_tiles astype tiles (h # w # rest) = Inr out" by blast
next
  assume f: "\<forall>(k, tile) \<in> set tiles. fits h w t k"
  show "\<forall>(k, tile) \<in> set tiles.
               slice_bounds h (fst k) (fst k + int t) = (nat (fst k), t) \<and>
               slice_bounds w (snd k) (snd k + int t) = (nat (snd k), t) \<and>
               (\<forall>dst. valid2 dst \<and> nrows dst = h \<and> ncols dst = w \<longrightarrow>
                  (\<exists>src dst'. channel0 tile = Inr src \<and>
                     setslice2 astype dst (fst k) (fst k + int t) (snd k) (snd k + int t) src = Inr dst' \<and>
                     (\<forall>a < t. \<forall>b < t.
                        cells dst' ! (nat (fst k) + a) ! (nat (snd k) + b) = astype (elems tile ! a ! b ! 0))))"
  proof (intro ballI, clarify, intro conjI allI impI)
    fix k1 k2 tile assume m: "((k1, k2), tile) \<in> set tiles"
    let ?k = "(k1, k2)"
    have ok: "tile_ok t tile" and fit: "fits h w t ?k" using assms(2) f m by auto
    show "slice_bounds h (fst ?k) (fst ?k + int t) = (nat (fst ?k), t)"
      using fit by (intro slice_bounds_fit) (auto simp: fits_def)
    show "slice_bounds w (snd ?k) (snd ?k + int t) = (nat (snd ?k), t)"
      using fit by (intro slice_bounds_fit) (auto simp: fits_def)
    fix dst :: "'f ndarray2" assume d: "valid2 dst \<and> nrows dst = h \<and> ncols dst = w"
    have fit': "fits (nrows dst) (ncols dst) t ?k" using fit d by simp
    obtain dst' where set: "setslice2 astype dst (fst ?k) (fst ?k + int t) (snd ?k) (snd ?k + int t)
            \<lparr>nrows = t, ncols = t, cells = map (map (\<lambda>p. p ! 0)) (elems tile)\<rparr> = Inr dst'"
      and cell: "\<And>r c. r < nrows dst \<Longrightarrow> c < ncols dst \<Longrightarrow>
             cells dst' ! r ! c = (if covers t ?k r c then astype (tile_value ?k tile r c) else cells dst ! r ! c)"
      using setslice2_fit [OF _ ok fit', of astype] d by blast
    have "cells dst' ! (nat (fst ?k) + a) ! (nat (snd ?k) + b) = astype (elems tile ! a ! b ! 0)"
      if ab: "a < t" "b < t" for a b
      using cell [of "nat (fst ?k) + a" "nat (snd ?k) + b"] tile_block_cell(1-3) [OF fit ab]
        tile_block_cell(4) [OF fit ab, of tile] d
      by simp
    then show "\<exists>src dst'. channel0 tile = Inr src \<and>
                     setslice2 astype dst (fst ?k) (fst ?k + int t) (snd ?k) (snd ?k + int t) src = Inr dst' \<and>
                     (\<forall>a < t. \<forall>b < t.
                        cells dst' ! (nat (fst ?k) + a) ! (nat (snd ?k) + b) = astype (elems tile ! a ! b ! 0))"
      using channel0_ok [OF ok] set by blast
  qed
qed

theorem jahit_tiles_bounds_witness:
  "tile_ok 2 tile_ones \<and> (2::nat) \<le> 2 \<and> int 2 < 1 + int 2 \<and> fits 2 2 2 (0, 0) \<and>
   jahit_tiles float64_of_int [((1, 0), tile_ones)] [2, 2] = Inl (ValueError BroadcastMismatch) \<and>
   (\<exists>out. jahit_tiles float64_of_int [((0, 0), tile_ones)] [2, 2] = Inr out) \<and>
   slice_bounds 2 0 (0 + int 2) = (nat 0, 2)"
proof -
  have ok: "tile_ok 2 tile_ones" by (simp add: tile_ok_def valid3_def tile_ones_def)
  have ft: "fits 2 2 2 (0, 0)" by (simp add: fits_def)
  have a: "jahit_tiles float64_of_int [((1, 0), tile_ones)] [2, 2] = Inl (ValueError BroadcastMismatch)"
    using jahit_tiles_bounds [where tiles = "[((1, 0), tile_ones)]" and t = 2 and h = 2 and w = 2
        and rest = "[]" and astype = float64_of_int] ok by simp
  have b: "(\<exists>out. jahit_tiles float64_of_int [((0, 0), tile_ones)] [2, 2] = Inr out) \<and>
      slice_bounds 2 0 (0 + int 2) = (nat 0, 2)"
    using jahit_tiles_bounds [where tiles = "[((0, 0), tile_ones)]" and t = 2 and h = 2 and w = 2
        and rest = "[]" and astype = float64_of_int] ok ft by simp
  show ?thesis using ok ft a b by simp
qed

section \<open>Claims about the DatasetSplitter\<close>

text \<open>
  Claim C4, as stated, at a label dictionary that has the key (2, 0) and a satellite
  dictionary that does not: \<open>split_tiles\<close> raises nothing. Only the keys of the
  satellite dictionary are looked up.
\<close>

theorem split_tiles_key_check_counterexample:
  "(2, 0) \<in> set (dict_keys veg_three) \<and> (2, 0) \<notin> set (dict_keys sat_two) \<and>
   split_tiles [1, 0] sat_two veg_three =
     Inr ([(0, 0)], [(0, 2)], [tile_ones], [tile_twos], [tile_twos], [tile_ones])"
  by (simp add: split_tiles_def train_test_split_def dict_keys_def dict_get_def
        sat_two_def veg_three_def Let_def)

text \<open>
  Claim C4, amended. For a satellite dictionary of at least two tiles (so that the
  split itself succeeds) and every permutation drawn: when some key of the satellite
  dictionary is missing from the label dictionary, \<open>split_tiles\<close> raises \<open>KeyError\<close>
  with a key of the satellite dictionary that the label dictionary lacks, and returns
  no arrays; when every key of the satellite dictionary is in the label dictionary,
  which may hold more, it returns.
\<close>

theorem split_tiles_key_check:
  assumes "is_permutation perm (length sat)" and "2 \<le> length sat"
  shows "(\<not> set (dict_keys sat) \<subseteq> set (dict_keys veg) \<longrightarrow>
            (\<exists>k. split_tiles perm sat veg = Inl (KeyError k) \<and>
                 k \<in> set (dict_keys sat) \<and> k \<notin> set (dict_keys veg))) \<and>
         (set (dict_keys sat) \<subseteq> set (dict_keys veg) \<longrightarrow>
            (\<exists>r. split_tiles perm sat veg = Inr r))"
proof -
  have n: "is_permutation perm (length (dict_keys sat))" "2 \<le> length (dict_keys sat)"
    using assms by (simp_all add: dict_keys_def)
  obtain train test where tt: "train_test_split perm (dict_keys sat) = Inr (train, test)"
    and un: "set train \<union> set test = set (dict_keys sat)"
    using train_test_split_ok [OF n] by blast
  obtain sat_train where st: "gather sat train = Inr sat_train"
    using gather_total [of train sat] un by auto
  obtain sat_test where ss: "gather sat test = Inr sat_test"
    using gather_total [of test sat] un by auto
  show ?thesis
  proof (intro conjI impI)
    assume miss: "\<not> set (dict_keys sat) \<subseteq> set (dict_keys veg)"
    show "\<exists>k. split_tiles perm sat veg = Inl (KeyError k) \<and>
                 k \<in> set (dict_keys sat) \<and> k \<notin> set (dict_keys veg)"
    proof (cases "set train \<subseteq> set (dict_keys veg)")
      case False
      then obtain k where k: "k \<in> set train" "gather veg train = Inl (KeyError k)"
          "k \<notin> set (dict_keys veg)"
        using gather_missing by blast
      have "split_tiles perm sat veg = Inl (KeyError k)"
        by (simp add: split_tiles_def tt st k(2))
      then show ?thesis using k un by blast
    next
      case True
      then obtain veg_train where vt: "gather veg train = Inr veg_train"
        using gather_total by blast
      have "\<not> set test \<subseteq> set (dict_keys veg)" using True miss un by blast
      then obtain k where k: "k \<in> set test" "gather veg test = Inl (KeyError k)"
          "k \<notin> set (dict_keys veg)"
        using gather_missing by blast
      have "split_tiles perm sat veg = Inl (KeyError k)"
        by (simp add: split_tiles_def tt st vt ss k(2))
      then show ?thesis using k un by blast
    qed
  next
    assume sub: "set (dict_keys sat) \<subseteq> set (dict_keys veg)"
    obtain veg_train where vt: "gather veg train = Inr veg_train"
      using gather_total [of train veg] un sub by auto
    obtain veg_test where vs: "gather veg test = Inr veg_test"
      using gather_total [of test veg] un sub by auto
    show "\<exists>r. split_tiles perm sat veg = Inr r"
      by (simp add: split_tiles_def tt st vt ss vs)
  qed
qed

theorem split_tiles_key_check_witness:
  "is_permutation [1, 0] (length sat_two) \<and> 2 \<le> length sat_two \<and>
   \<not> set (dict_keys sat_two) \<subseteq> set (dict_keys veg_one) \<and>
   split_tiles [1, 0] sat_two veg_one = Inl (KeyError (0, 2)) \<and>
   (\<exists>k. split_tiles [1, 0] sat_two veg_one = Inl (KeyError k) \<and>
        k \<in> set (dict_keys sat_two) \<and> k \<notin> set (dict_keys veg_one)) \<and>
   set (dict_keys sat_two) \<subseteq> set (dict_keys veg_three) \<and>
   (\<exists>r. split_tiles [1, 0] sat_two veg_three = Inr r)"
proof -
  have p: "is_permutation [1, 0] (length sat_two)" by (simp add: sat_two_def) code_simp
  have l: "2 \<le> length sat_two" by (simp add: sat_two_def)
  have m: "\<not> set (dict_keys sat_two) \<subseteq> set (dict_keys veg_one)"
    by (simp add: dict_keys_def sat_two_def veg_one_def)
  have s: "set (dict_keys sat_two) \<subseteq> set (dict_keys veg_three)"
    by (simp add: dict_keys_def sat_two_def veg_three_def)
  have e: "split_tiles [1, 0] sat_two veg_one = Inl (KeyError (0, 2))"
    by (simp add: split_tiles_def train_test_split_def dict_keys_def dict_get_def
        sat_two_def veg_one_def Let_def)
  show ?thesis
    using split_tiles_key_check [OF p l, of veg_one] split_tiles_key_check [OF p l, of veg_three]
      p l m s e by blast
qed

text \<open>
  Claim C5. In every result of \<open>split_tiles\<close>, whatever the permutation drawn,
  \<open>sat_train\<close> and \<open>veg_train\<close> are as long as the train key list and their
  \<open>i\<close>-th entries are the tiles that the satellite and the label dictionary hold for
  the \<open>i\<close>-th train key; likewise \<open>sat_test\<close> and \<open>veg_test\<close> for the test key
  list.
\<close>

theorem split_tiles_paired:
  assumes "split_tiles perm sat veg = Inr (train, test, sat_train, veg_train, sat_test, veg_test)"
  shows "length sat_train = length train \<and> length veg_train = length train \<and>
         (\<forall>i < length train.
            dict_get sat (train ! i) = Inr (sat_train ! i) \<and>
            dict_get veg (train ! i) = Inr (veg_train ! i)) \<and>
         length sat_test = length test \<and> length veg_test = length test \<and>
         (\<forall>i < length test.
            dict_get sat (test ! i) = Inr (sat_test ! i) \<and>
            dict_get veg (test ! i) = Inr (veg_test ! i))"
  using split_tiles_Inr(2-5) [OF assms, THEN gather_Inr] by simp

theorem split_tiles_paired_witness:
  "split_tiles [1, 0] sat_two veg_two =
     Inr ([(0, 0)], [(0, 2)], [tile_ones], [tile_twos], [tile_twos], [tile_ones]) \<and>
   dict_get sat_two ([(0, 0)] ! 0) = Inr ([tile_ones] ! 0) \<and>
   dict_get veg_two ([(0, 0)] ! 0) = Inr ([tile_twos] ! 0) \<and>
   dict_get sat_two ([(0, 2)] ! 0) = Inr ([tile_twos] ! 0) \<and>
   dict_get veg_two ([(0, 2)] ! 0) = Inr ([tile_ones] ! 0)"
proof -
  have e: "split_tiles [1, 0] sat_two veg_two =
     Inr ([(0, 0)], [(0, 2)], [tile_ones], [tile_twos], [tile_twos], [tile_ones])"
    by (simp add: split_tiles_def train_test_split_def dict_keys_def dict_get_def
        sat_two_def veg_two_def Let_def)
  show ?thesis using split_tiles_paired [OF e] e by simp
qed

text \<open>
  Claim C6, as stated, at a dictionary of one tile: \<open>n_test = ceil(0.2) = 1\<close> leaves
  no train sample, \<open>train_test_split\<close> raises \<open>ValueError\<close>, and \<open>split_tiles\<close>
  with it: there are no key lists.
\<close>

theorem train_test_split_partition_counterexample:
  "length [((0::int, 0::int), tile_ones)] = 1 \<and>
   train_test_split [0] (dict_keys [((0::int, 0::int), tile_ones)]) = Inl (ValueError EmptyTrainSet) \<and>
   split_tiles [0] [((0, 0), tile_ones)] [((0, 0), tile_twos)] = Inl (ValueError EmptyTrainSet)"
  by (simp add: split_tiles_def train_test_split_def dict_keys_def Let_def)

text \<open>
  Claim C6, amended. For a dictionary of \<open>N \<ge> 2\<close> tiles with distinct keys and every
  permutation drawn, the split of its keys with the test fraction 0.2 that
  \<open>split_tiles\<close> fixes returns a train and a test list with
  \<open>|train| + |test| = N\<close>, no common key, together all keys, and
  \<open>|test| = ceil(N / 5)\<close>, which is within one of \<open>round(N / 5)\<close>.
\<close>

theorem train_test_split_partition:
  assumes "is_permutation perm (length tiles)" and "2 \<le> length tiles"
    and "distinct (dict_keys tiles)"
  shows "\<exists>train test. train_test_split perm (dict_keys tiles) = Inr (train, test) \<and>
           length train + length test = length tiles \<and>
           set train \<inter> set test = {} \<and>
           set train \<union> set test = set (dict_keys tiles) \<and>
           int (length test) = \<lceil>real (length tiles) / 5\<rceil> \<and>
           \<bar>int (length test) - round (real (length tiles) / 5)\<bar> \<le> 1"
proof -
  have n: "is_permutation perm (length (dict_keys tiles))" "2 \<le> length (dict_keys tiles)"
    using assms by (simp_all add: dict_keys_def)
  obtain train test where tt: "train_test_split perm (dict_keys tiles) = Inr (train, test)"
    and lt: "length test = (length (dict_keys tiles) + 4) div 5"
    and len: "length train + length test = length (dict_keys tiles)"
    and un: "set train \<union> set test = set (dict_keys tiles)"
    and di: "distinct (dict_keys tiles) \<longrightarrow> distinct (test @ train)"
    using train_test_split_ok [OF n] by blast
  have l: "length (dict_keys tiles) = length tiles" by (simp add: dict_keys_def)
  have "set train \<inter> set test = {}" using di assms(3) by auto
  moreover have "int (length test) = \<lceil>real (length tiles) / 5\<rceil>"
    unfolding lt l ceil_fifth ..
  moreover have "\<bar>int (length test) - round (real (length tiles) / 5)\<bar> \<le> 1"
    unfolding lt l by (rule test_size_round)
  ultimately show ?thesis using tt len un unfolding l by blast
qed

theorem train_test_split_partition_witness:
  "is_permutation [1, 0] (length sat_two) \<and> 2 \<le> length sat_two \<and>
   distinct (dict_keys sat_two) \<and>
   train_test_split [1, 0] (dict_keys sat_two) = Inr ([(0, 0)], [(0, 2)]) \<and>
   (\<exists>train test. train_test_split [1, 0] (dict_keys sat_two) = Inr (train, test) \<and>
           length train + length test = length sat_two \<and>
           set train \<inter> set test = {} \<and>
           set train \<union> set test = set (dict_keys sat_two) \<and>
           int (length test) = \<lceil>real (length sat_two) / 5\<rceil> \<and>
           \<bar>int (length test) - round (real (length sat_two) / 5)\<bar> \<le> 1)"
proof -
  have p: "is_permutation [1, 0] (length sat_two)" by (simp add: sat_two_def) code_simp
  have l: "2 \<le> length sat_two" by (simp add: sat_two_def)
  have d: "distinct (dict_keys sat_two)" by (simp add: dict_keys_def sat_two_def)
  have e: "train_test_split [1, 0] (dict_keys sat_two) = Inr ([(0, 0)], [(0, 2)])"
    by (simp add: train_test_split_def dict_keys_def sat_two_def Let_def)
  show ?thesis
    by (intro conjI) (rule p, rule l, rule d, rule e, rule train_test_split_partition [OF p l d])
qed

section \<open>Claims about the SegmentationModel\<close>




end
